theory Spec2Isabelle
  imports Complex_Main "HOL-Library.Sublist"
begin

section \<open>Python strings\<close>

text \<open>
  A Python \<open>str\<close> is a sequence of Unicode code points: \<open>len\<close>, indexing and slicing
  count code points. The model is a list of code points (natural numbers); \<open>str\<close>
  embeds an ASCII literal. The text of the repository's literals that is not ASCII is
  written with its code points.
\<close>

type_synonym pystr = "nat list"

definition str :: "string \<Rightarrow> pystr" where
  "str s = map of_char s"

text \<open>
  The parts of the Unicode database of the Python runtime that the program reaches
  through \<open>int\<close>, \<open>str.lower\<close> and \<open>str.upper\<close>. They are parameters: every
  theorem holds for every table.
  \<^item> \<open>udecimal c\<close>: the decimal value of a code point from 127 on, if it is a decimal digit;
  \<^item> \<open>ulower s i\<close>, \<open>uupper s i\<close>: what the non-ASCII code point at position \<open>i\<close> of
    \<open>s\<close> becomes under \<open>lower()\<close> and \<open>upper()\<close> (one code point can become
    several, and the result can depend on its neighbours).
\<close>

record unicode =
  udecimal :: "nat \<Rightarrow> nat option"
  ulower :: "pystr \<Rightarrow> nat \<Rightarrow> pystr"
  uupper :: "pystr \<Rightarrow> nat \<Rightarrow> pystr"

text \<open>Truthiness of an optional string: \<open>None\<close> and \<open>""\<close> are falsy.\<close>

definition truthy :: "pystr option \<Rightarrow> bool" where
  "truthy v = (case v of None \<Rightarrow> False | Some s \<Rightarrow> s \<noteq> [])"

text \<open>\<open>str.isspace\<close> on one code point: the whitespace that \<open>strip()\<close> removes.\<close>

definition py_isspace :: "nat \<Rightarrow> bool" where
  "py_isspace c =
     ((9 \<le> c \<and> c \<le> 13) \<or> (28 \<le> c \<and> c \<le> 32) \<or> c = 133 \<or> c = 160 \<or> c = 5760 \<or>
      (8192 \<le> c \<and> c \<le> 8202) \<or> c = 8232 \<or> c = 8233 \<or> c = 8239 \<or> c = 8287 \<or> c = 12288)"

definition py_strip :: "pystr \<Rightarrow> pystr" where
  "py_strip s = rev (dropWhile py_isspace (rev (dropWhile py_isspace s)))"

definition ascii_lower :: "nat \<Rightarrow> nat" where
  "ascii_lower c = (if 65 \<le> c \<and> c \<le> 90 then c + 32 else c)"

definition ascii_upper :: "nat \<Rightarrow> nat" where
  "ascii_upper c = (if 97 \<le> c \<and> c \<le> 122 then c - 32 else c)"

definition py_lower :: "unicode \<Rightarrow> pystr \<Rightarrow> pystr" where
  "py_lower u s =
     concat (map (\<lambda>i. if s ! i < 128 then [ascii_lower (s ! i)] else ulower u s i) [0..<length s])"

definition py_upper :: "unicode \<Rightarrow> pystr \<Rightarrow> pystr" where
  "py_upper u s =
     concat (map (\<lambda>i. if s ! i < 128 then [ascii_upper (s ! i)] else uupper u s i) [0..<length s])"

text \<open>\<open>sep.join(xs)\<close>.\<close>

fun py_join :: "pystr \<Rightarrow> pystr list \<Rightarrow> pystr" where
  "py_join sep [] = []"
| "py_join sep [x] = x"
| "py_join sep (x # y # ys) = x @ sep @ py_join sep (y # ys)"

subsection \<open>\<open>int(s)\<close> on a string\<close>

text \<open>
  \<open>int\<close> reads a string in base 10 as CPython does: every code point is first read as
  an ASCII character (below 127 as it is, other whitespace as a blank, another decimal
  digit as the ASCII digit of its value, anything else as invalid); then leading blanks,
  one optional sign, digits with single underscores between them, and trailing blanks.
  \<open>None\<close> is \<open>ValueError\<close>.
\<close>

datatype cls = Digit nat | Space | Plus | Minus | Underscore | Other

definition classify :: "unicode \<Rightarrow> nat \<Rightarrow> cls" where
  "classify u c =
     (if c < 127 then
        (if 48 \<le> c \<and> c \<le> 57 then Digit (c - 48)
         else if (9 \<le> c \<and> c \<le> 13) \<or> c = 32 then Space
         else if c = 43 then Plus
         else if c = 45 then Minus
         else if c = 95 then Underscore
         else Other)
      else if py_isspace c then Space
      else (case udecimal u c of
              None \<Rightarrow> Other
            | Some d \<Rightarrow> if d < 10 then Digit d else Other))"

fun is_body :: "cls \<Rightarrow> bool" where
  "is_body (Digit d) = True"
| "is_body Underscore = True"
| "is_body c = False"

text \<open>
  The digits of a literal: at least one, no underscore first, last or after another
  underscore.
\<close>

fun body_ok :: "cls list \<Rightarrow> bool" where
  "body_ok [Digit d] = True"
| "body_ok (Digit d # Underscore # r) = body_ok r"
| "body_ok (Digit d # r) = body_ok r"
| "body_ok r = False"

fun body_value :: "int \<Rightarrow> cls list \<Rightarrow> int" where
  "body_value a [] = a"
| "body_value a (Digit d # r) = body_value (10 * a + int d) r"
| "body_value a (c # r) = body_value a r"

fun sign_of :: "cls list \<Rightarrow> int" where
  "sign_of (Minus # r) = - 1"
| "sign_of r = 1"

fun after_sign :: "cls list \<Rightarrow> cls list" where
  "after_sign (Plus # r) = r"
| "after_sign (Minus # r) = r"
| "after_sign r = r"

definition int_of_classes :: "cls list \<Rightarrow> int option" where
  "int_of_classes cs =
     (let r1 = dropWhile (\<lambda>c. c = Space) cs;
          r2 = after_sign r1;
          body = takeWhile is_body r2;
          rest = dropWhile is_body r2
      in if body_ok body \<and> list_all (\<lambda>c. c = Space) rest
         then Some (sign_of r1 * body_value 0 body) else None)"

definition py_int :: "unicode \<Rightarrow> pystr \<Rightarrow> int option" where
  "py_int u s = int_of_classes (map (classify u) s)"

section \<open>Validators (utils/validators.py, main.py)\<close>

text \<open>
  \<open>validate_ciclo\<close>: the length test, then \<open>int(ciclo[:4])\<close> and \<open>int(ciclo[4])\<close>;
  a \<open>ValueError\<close> of either gives \<open>False\<close>.
\<close>

definition validate_ciclo :: "unicode \<Rightarrow> pystr \<Rightarrow> bool" where
  "validate_ciclo u ciclo =
     (if ciclo = [] \<or> length ciclo \<noteq> 5 then False
      else (case py_int u (take 4 ciclo) of
              None \<Rightarrow> False
            | Some year \<Rightarrow>
                (case py_int u [ciclo ! 4] of
                   None \<Rightarrow> False
                 | Some semester \<Rightarrow>
                     2000 \<le> year \<and> year \<le> 2100 \<and> (semester = 1 \<or> semester = 2))))"

text \<open>
  What \<open>int\<close> reads as one decimal digit, and the value of a string all of whose
  characters are such digits. They describe the strings that the validator accepts.
\<close>

definition digit_val :: "unicode \<Rightarrow> nat \<Rightarrow> nat option" where
  "digit_val u c = (case classify u c of Digit d \<Rightarrow> Some d | _ \<Rightarrow> None)"

fun digits_value :: "int \<Rightarrow> nat option list \<Rightarrow> int option" where
  "digits_value a [] = Some a"
| "digits_value a (None # r) = None"
| "digits_value a (Some d # r) = digits_value (10 * a + int d) r"

definition decimal_value :: "(nat \<Rightarrow> nat option) \<Rightarrow> pystr \<Rightarrow> int option" where
  "decimal_value dg s = (if s = [] then None else digits_value 0 (map dg s))"

definition accepted_cycle :: "unicode \<Rightarrow> pystr \<Rightarrow> bool" where
  "accepted_cycle u s =
     (length s = 5 \<and>
      (case decimal_value (digit_val u) (take 4 s) of
         None \<Rightarrow> False
       | Some year \<Rightarrow>
           (case decimal_value (digit_val u) (drop 4 s) of
              None \<Rightarrow> False
            | Some digit \<Rightarrow> 2000 \<le> year \<and> year \<le> 2100 \<and> (digit = 1 \<or> digit = 2))))"

text \<open>
  The cycle format in the specification's words, \<open>YYYY1\<close> or \<open>YYYY2\<close>: four digits
  that form a year in [2000, 2100], then the digit 1 or 2. The digits are the
  characters \<open>0\<close> to \<open>9\<close>.
\<close>

definition ascii_digit :: "nat \<Rightarrow> nat option" where
  "ascii_digit c = (if 48 \<le> c \<and> c \<le> 57 then Some (c - 48) else None)"

definition cycle_format :: "pystr \<Rightarrow> bool" where
  "cycle_format s =
     (length s = 5 \<and>
      (case decimal_value ascii_digit (take 4 s) of
         None \<Rightarrow> False
       | Some year \<Rightarrow>
           (case decimal_value ascii_digit (drop 4 s) of
              None \<Rightarrow> False
            | Some digit \<Rightarrow> 2000 \<le> year \<and> year \<le> 2100 \<and> (digit = 1 \<or> digit = 2))))"

text \<open>The classes of characters that the proofs about \<open>int\<close> distinguish.\<close>

fun wf_cls :: "cls \<Rightarrow> bool" where
  "wf_cls (Digit d) = (d < 10)"
| "wf_cls c = True"

fun cls_digit :: "cls \<Rightarrow> nat option" where
  "cls_digit (Digit d) = Some d"
| "cls_digit c = None"

fun is_digit :: "cls \<Rightarrow> bool" where
  "is_digit (Digit d) = True"
| "is_digit c = False"

section \<open>The language capability\<close>

text \<open>
  One \<open>llm.invoke\<close> either returns a response, of which the program reads the
  \<open>content\<close>, or raises.
\<close>

datatype llm_reply = Content pystr | Raises

subsection \<open>Moderation (services/content\_moderator.py, main.py)\<close>

text \<open>\<open>s.split(":", 1)[1]\<close>: the text after the first colon; \<open>None\<close> is \<open>IndexError\<close>.\<close>

definition after_colon :: "pystr \<Rightarrow> pystr option" where
  "after_colon s = (case dropWhile (\<lambda>c. c \<noteq> 58) s of [] \<Rightarrow> None | c # r \<Rightarrow> Some r)"

definition warning_message :: "pystr \<Rightarrow> pystr" where
  "warning_message reason =
     [9888, 65039] @ str '' ADVERTENCIA: Tu mensaje ha sido detectado como inapropiado.'' @ [10, 10] @
     str ''Raz'' @ [243] @ str ''n: '' @ reason @ [10, 10] @
     [128683] @ str '' Este tipo de contenido est'' @ [225] @
     str '' estrictamente prohibido y ser'' @ [225] @ str '' reportado '' @
     str ''inmediatamente a las autoridades universitarias.'' @ [10, 10] @
     [9888, 65039] @ str '' Consecuencias:'' @ [10] @
     str ''- Reporte inmediato a la universidad'' @ [10] @
     str ''- Posible expulsi'' @ [243] @ str ''n del curso'' @ [10] @
     str ''- Proceso disciplinario'' @ [10, 10] @
     str ''Por favor, mant'' @ [233] @
     str ''n un ambiente respetuoso y profesional en todas tus interacciones.''"

text \<open>
  \<open>detect_inappropriate_content\<close>, given what its \<open>llm.invoke\<close> did. The
  \<open>except\<close> clause covers the invocation that raises and the \<open>IndexError\<close> of a
  response without a colon.
\<close>

definition detect_inappropriate_content :: "llm_reply \<Rightarrow> bool \<times> pystr" where
  "detect_inappropriate_content r =
     (case r of
        Raises \<Rightarrow> (True, [])
      | Content c \<Rightarrow>
          (let result = py_strip c in
           if prefix (str ''INAPPROPRIATE'') result then
             (case after_colon result of
                None \<Rightarrow> (True, [])
              | Some rest \<Rightarrow> (False, warning_message (py_strip rest)))
           else (True, [])))"

subsection \<open>The service functions (services/llm\_service.py)\<close>

definition identify_course :: "llm_reply \<Rightarrow> pystr" where
  "identify_course r = (case r of Content c \<Rightarrow> py_strip c | Raises \<Rightarrow> str ''NO_MATCH'')"

definition identify_module :: "llm_reply \<Rightarrow> pystr" where
  "identify_module r = (case r of Content c \<Rightarrow> py_strip c | Raises \<Rightarrow> str ''NO_MATCH'')"

definition suggest_category :: "llm_reply \<Rightarrow> pystr" where
  "suggest_category r = (case r of Content c \<Rightarrow> py_strip c | Raises \<Rightarrow> str ''GENERAL'')"

definition llm_process_query :: "llm_reply \<Rightarrow> pystr" where
  "llm_process_query r =
     (case r of
        Content c \<Rightarrow> py_strip c
      | Raises \<Rightarrow>
          str ''Lo siento, hubo un error al procesar tu consulta. Por favor, intenta de nuevo.'')"

section \<open>Floating-point arithmetic\<close>

text \<open>
  The score of a search result is computed by NumPy from a \<open>float32\<close> distance, in
  single or in double precision according to the version of the library. A format
  is given by its precision \<open>prec\<close> (the bits of the significand) and the exponent
  \<open>emin\<close> of its smallest normal number. The values are real numbers; \<open>fl\<close> rounds a
  real to the nearest number of the format, a tie to the one with the even
  significand, below \<open>2 ^ emin\<close> on the grid of the subnormal numbers. The largest
  exponent is not modelled: a finite \<open>float32\<close> distance plus one does not overflow.
\<close>

datatype format = Binary32 | Binary64

fun prec :: "format \<Rightarrow> nat" where
  "prec Binary32 = 24"
| "prec Binary64 = 53"

fun emin :: "format \<Rightarrow> int" where
  "emin Binary32 = - 126"
| "emin Binary64 = - 1022"

text \<open>Rounding to the nearest integer, a tie to the even one.\<close>

definition rne :: "real \<Rightarrow> int" where
  "rne x =
     (let n = \<lfloor>x\<rfloor>; r = x - of_int n
      in if r < 1 / 2 then n else if 1 / 2 < r then n + 1 else if even n then n else n + 1)"

text \<open>
  The binary exponent of a positive number, the \<open>e\<close> with \<open>2 ^ e \<le> x < 2 ^ (e + 1)\<close>:
  the halvings that bring a number from 2 on below 2, or the doublings that bring a
  number below 1 up to 1.
\<close>

function bin_up :: "real \<Rightarrow> nat" where
  "bin_up x = (if x < 2 then 0 else Suc (bin_up (x / 2)))"
  by auto
termination
proof (relation "measure (\<lambda>x. nat \<lfloor>x\<rfloor>)")
  fix x :: real
  assume "\<not> x < 2"
  then have "\<lfloor>x / 2\<rfloor> < \<lfloor>x\<rfloor>" "0 < \<lfloor>x\<rfloor>" by linarith+
  then show "(x / 2, x) \<in> measure (\<lambda>x. nat \<lfloor>x\<rfloor>)" by simp
qed simp

function bin_down :: "real \<Rightarrow> nat" where
  "bin_down x = (if x \<le> 0 \<or> 1 \<le> x then 0 else Suc (bin_down (2 * x)))"
  by auto
termination
proof (relation "measure (\<lambda>x. nat \<lfloor>2 / x\<rfloor>)")
  fix x :: real
  assume "\<not> (x \<le> 0 \<or> 1 \<le> x)"
  then have "0 < x" "x < 1" by simp_all
  then have t: "2 \<le> 2 / x" by (simp add: field_simps)
  have "\<lfloor>t / 2\<rfloor> < \<lfloor>t\<rfloor> \<and> 0 < \<lfloor>t\<rfloor>" if "2 \<le> t" for t :: real
    using that by linarith
  from this [OF t] have "nat \<lfloor>(2 / x) / 2\<rfloor> < nat \<lfloor>2 / x\<rfloor>" by simp
  moreover have "2 / (2 * x) = (2 / x) / 2" by simp
  ultimately show "(2 * x, x) \<in> measure (\<lambda>x. nat \<lfloor>2 / x\<rfloor>)" by simp
qed simp

declare bin_up.simps [simp del] bin_down.simps [simp del]

definition exponent :: "real \<Rightarrow> int" where
  "exponent x = (if 1 \<le> x then int (bin_up x) else - int (bin_down x))"

text \<open>The distance between the numbers of the format around \<open>x\<close>.\<close>

definition quantum :: "format \<Rightarrow> real \<Rightarrow> real" where
  "quantum f x = 2 powi (max (exponent \<bar>x\<bar>) (emin f) - int (prec f) + 1)"

definition fl :: "format \<Rightarrow> real \<Rightarrow> real" where
  "fl f x = (if x = 0 then 0 else of_int (rne (x / quantum f x)) * quantum f x)"

section \<open>The content index (semantic\_search.py)\<close>

text \<open>
  The libraries under the index are external. \<open>embed\<close> gives the vector that the
  embedding model makes of a text, with \<open>dim\<close> components, and \<open>embed_fails\<close> says
  for which call \<open>encode\<close> raises; \<open>arith\<close> is the format of the arithmetic on the
  distances. Vector components and distances are real numbers.
\<close>

type_synonym vec = "nat \<Rightarrow> real"

record encoder =
  dim :: nat
  embed :: "pystr \<Rightarrow> vec"
  embed_fails :: "pystr list \<Rightarrow> bool"
  arith :: format

type_synonym meta = "(pystr \<times> pystr) list"

text \<open>The index is \<open>None\<close> or the vectors added to the FAISS index, in order.\<close>

record semantic_search =
  index :: "vec list option"
  texts :: "pystr list"
  metadata :: "meta list"

datatype search_error = EncodeError | IndexError | ValueError

definition new_search :: semantic_search where
  "new_search = \<lparr>index = None, texts = [], metadata = []\<rparr>"

definition clear :: "semantic_search \<Rightarrow> semantic_search" where
  "clear s = s\<lparr>index := None, texts := [], metadata := []\<rparr>"

text \<open>
  \<open>add_texts\<close>. Every exception is logged and raised again, before anything is
  stored: that of \<open>encode\<close>, and those of an empty list of texts, whose embeddings
  are an array with one axis, so that \<open>embeddings_np.shape[1]\<close> is an \<open>IndexError\<close>
  when there is no index yet and \<open>index.add\<close> refuses the array with a
  \<open>ValueError\<close> when there is one. \<open>if metadata:\<close> is false for \<open>None\<close> and for the
  empty list.
\<close>

definition add_texts ::
  "encoder \<Rightarrow> semantic_search \<Rightarrow> pystr list \<Rightarrow> meta list option \<Rightarrow> search_error + semantic_search"
where
  "add_texts enc s ts md =
     (if embed_fails enc ts then Inl EncodeError
      else if ts = [] then Inl (case index s of None \<Rightarrow> IndexError | Some vs \<Rightarrow> ValueError)
      else
        (let embeddings = map (embed enc) ts;
             idx = (case index s of None \<Rightarrow> [] | Some vs \<Rightarrow> vs)
         in Inr (s\<lparr>index := Some (idx @ embeddings),
                   texts := texts s @ ts,
                   metadata := metadata s @
                     (case md of
                        None \<Rightarrow> replicate (length ts) []
                      | Some m \<Rightarrow> if m \<noteq> [] then m else replicate (length ts) [])\<rparr>)))"

text \<open>
  Modelled from the spec: the search of the FAISS index (\<open>IndexFlatL2\<close>), a library
  the repository calls. It returns the \<open>k\<close> nearest stored vectors by squared
  Euclidean distance, nearest first, ties in insertion order, as (distance, position)
  pairs; with fewer than \<open>k\<close> vectors stored, the missing results are position \<open>-1\<close>
  at the distance \<open>pad_distance\<close>. \<open>None\<close>: the library refuses \<open>k \<le> 0\<close>.
\<close>

definition l2 :: "nat \<Rightarrow> vec \<Rightarrow> vec \<Rightarrow> real" where
  "l2 d q v = (\<Sum>i\<leftarrow>[0..<d]. (q i - v i)\<^sup>2)"

definition pad_distance :: real where
  "pad_distance = 340282346638528859811704183484516925440"

definition faiss_search :: "nat \<Rightarrow> vec list \<Rightarrow> vec \<Rightarrow> int \<Rightarrow> (real \<times> int) list option" where
  "faiss_search d vs q k =
     (if k \<le> 0 then None
      else
        (let order = sort_key (\<lambda>i. l2 d q (vs ! i)) [0..<length vs];
             found = map (\<lambda>i. (l2 d q (vs ! i), int i)) (take (nat k) order)
         in Some (found @ replicate (nat k - length found) (pad_distance, - 1))))"

text \<open>Python indexing \<open>xs[i]\<close>: a negative index counts from the end; \<open>None\<close> is \<open>IndexError\<close>.\<close>

definition py_index :: "'a list \<Rightarrow> int \<Rightarrow> 'a option" where
  "py_index xs i =
     (let n = int (length xs); j = (if i < 0 then n + i else i)
      in if 0 \<le> j \<and> j < n then Some (xs ! nat j) else None)"

text \<open>\<open>1 / (1 + dist)\<close>: the sum is rounded, then the quotient.\<close>

definition score_of :: "format \<Rightarrow> real \<Rightarrow> real" where
  "score_of f distance = fl f (1 / fl f (1 + distance))"

text \<open>The loop of \<open>search\<close> over the (distance, position) pairs; \<open>None\<close> is an exception.\<close>

fun format_results ::
  "format \<Rightarrow> semantic_search \<Rightarrow> (real \<times> int) list \<Rightarrow> (pystr \<times> meta \<times> real) list option"
where
  "format_results f s [] = Some []"
| "format_results f s ((distance, idx) # r) =
     (if idx < int (length (texts s)) then
        (case py_index (texts s) idx of
           None \<Rightarrow> None
         | Some t \<Rightarrow>
             (case py_index (metadata s) idx of
                None \<Rightarrow> None
              | Some m \<Rightarrow>
                  (case format_results f s r of
                     None \<Rightarrow> None
                   | Some rs \<Rightarrow> Some ((t, m, score_of f distance) # rs))))
      else format_results f s r)"

text \<open>\<open>search\<close>: every exception gives the empty list.\<close>

definition search ::
  "encoder \<Rightarrow> semantic_search \<Rightarrow> pystr \<Rightarrow> int \<Rightarrow> (pystr \<times> meta \<times> real) list"
where
  "search enc s query k =
     (if embed_fails enc [query] then []
      else
        (case index s of
           None \<Rightarrow> []
         | Some vs \<Rightarrow>
             if length (texts s) = 0 then []
             else
               (case faiss_search (dim enc) vs (embed enc query) (min k (int (length (texts s)))) of
                  None \<Rightarrow> []
                | Some found \<Rightarrow>
                    (case format_results (arith enc) s found of
                       None \<Rightarrow> []
                     | Some rs \<Rightarrow> rs))))"

text \<open>A sequence of operations on one index; an \<open>add_texts\<close> that raises changes nothing.\<close>

datatype index_op = Clear | Add "pystr list" "meta list option"

fun apply_op :: "encoder \<Rightarrow> semantic_search \<Rightarrow> index_op \<Rightarrow> semantic_search" where
  "apply_op enc s Clear = clear s"
| "apply_op enc s (Add ts md) = (case add_texts enc s ts md of Inl e \<Rightarrow> s | Inr s' \<Rightarrow> s')"

text \<open>An \<open>add_texts\<close> call whose metadata is absent, empty or as long as its texts.\<close>

fun aligned_op :: "index_op \<Rightarrow> bool" where
  "aligned_op Clear = True"
| "aligned_op (Add ts None) = True"
| "aligned_op (Add ts (Some m)) = (m = [] \<or> length m = length ts)"

text \<open>
  The (text, metadata) pairs supplied since the last \<open>clear\<close>, a text without
  metadata paired with the empty dictionary.
\<close>

fun supplied :: "encoder \<Rightarrow> (pystr \<times> meta) list \<Rightarrow> index_op \<Rightarrow> (pystr \<times> meta) list" where
  "supplied enc acc Clear = []"
| "supplied enc acc (Add ts md) =
     (if embed_fails enc ts then acc
      else acc @ zip ts (case md of
                           None \<Rightarrow> replicate (length ts) []
                         | Some m \<Rightarrow> if m \<noteq> [] then m else replicate (length ts) []))"

definition index_size :: "semantic_search \<Rightarrow> nat" where
  "index_size s = (case index s of None \<Rightarrow> 0 | Some vs \<Rightarrow> length vs)"

definition aligned :: "semantic_search \<Rightarrow> bool" where
  "aligned s = (length (texts s) = length (metadata s) \<and> index_size s = length (texts s))"

text \<open>
  Encoders for concrete runs, with one component and never failing: the length of the
  text, in double precision; and the length on a fine scale, where two texts are at a
  small distance, in single precision.
\<close>

definition enc0 :: encoder where
  "enc0 = \<lparr>dim = 1, embed = (\<lambda>t i. real (length t)), embed_fails = (\<lambda>ts. False),
           arith = Binary64\<rparr>"

definition enc1 :: encoder where
  "enc1 = \<lparr>dim = 1, embed = (\<lambda>t i. real (length t) / 2 ^ 35), embed_fails = (\<lambda>ts. False),
           arith = Binary32\<rparr>"

text \<open>
  A Unicode table for concrete runs: its decimal digits outside ASCII are the
  fullwidth digits U+FF10 to U+FF19, and it changes no case.
\<close>

definition uni1 :: unicode where
  "uni1 = \<lparr>udecimal = (\<lambda>c. if 65296 \<le> c \<and> c \<le> 65305 then Some (c - 65296) else None),
           ulower = (\<lambda>s i. [s ! i]), uupper = (\<lambda>s i. [s ! i])\<rparr>"

section \<open>The data store (database.py)\<close>

text \<open>
  The rows of the three tables, each course with its updates and documents in the
  order the queries return them (newest first). A \<open>TEXT\<close> column that may be
  \<open>NULL\<close> is optional.
\<close>

record update_row =
  upd_content :: pystr
  upd_category :: pystr
  upd_ciclo :: "pystr option"
  upd_modulo :: "pystr option"
  upd_section :: "pystr option"
  upd_timestamp :: pystr

record document_row =
  doc_title :: pystr
  doc_file_path :: pystr
  doc_category :: pystr
  doc_ciclo :: "pystr option"
  doc_modulo :: "pystr option"
  doc_section :: "pystr option"
  doc_timestamp :: pystr

record course_row =
  course_name :: pystr
  course_section :: "pystr option"
  course_updates :: "update_row list"
  course_documents :: "document_row list"

text \<open>
  \<open>list(db.get_courses().keys())\<close>: the names of the courses, each once, in the order
  of its first row.
\<close>

definition course_names :: "course_row list \<Rightarrow> pystr list" where
  "course_names rows = rev (remdups (rev (map course_name rows)))"

record course_info =
  info_name :: pystr
  info_section :: "pystr option"
  info_updates :: "update_row list"
  info_documents :: "document_row list"

text \<open>
  \<open>get_course_info\<close>: the first course of that name, its updates and documents
  filtered by each of cycle, module and section that is given (truthy); \<open>None\<close> when
  the course has no row.
\<close>

definition matches :: "pystr option \<Rightarrow> pystr option \<Rightarrow> bool" where
  "matches wanted column = (\<not> truthy wanted \<or> column = wanted)"

definition get_course_info ::
  "course_row list \<Rightarrow> pystr \<Rightarrow> pystr option \<Rightarrow> pystr option \<Rightarrow> pystr option \<Rightarrow> course_info option"
where
  "get_course_info rows name cyc md sect =
     (case find (\<lambda>c. course_name c = name) rows of
        None \<Rightarrow> None
      | Some c \<Rightarrow>
          Some \<lparr>info_name = name,
                info_section = (if truthy sect then sect else course_section c),
                info_updates =
                  filter (\<lambda>r. matches cyc (upd_ciclo r) \<and> matches md (upd_modulo r) \<and>
                               matches sect (upd_section r)) (course_updates c),
                info_documents =
                  filter (\<lambda>r. matches cyc (doc_ciclo r) \<and> matches md (doc_modulo r) \<and>
                               matches sect (doc_section r)) (course_documents c)\<rparr>)"

section \<open>The session state (models/state.py, utils/state.py)\<close>

text \<open>The values that the handlers give \<open>update_step\<close>.\<close>

datatype step =
    course_selection | content_input | category_confirmation | category_input
  | ciclo_selection | section_selection | modulo_selection

text \<open>
  The \<open>State\<close> dictionary, one field per key (\<open>sect\<close> is the key
  \<open>section\<close>). A flag that \<open>reset_state\<close> sets to
  \<open>None\<close> is an optional boolean; \<open>flag\<close> is its truth value.
\<close>

record state =
  messages :: "(pystr \<times> pystr) list"
  course :: "pystr option"
  sect :: "pystr option"
  ciclo :: "pystr option"
  modulo :: "pystr option"
  waiting_for_course :: "bool option"
  waiting_for_ciclo :: "bool option"
  waiting_for_modulo :: "bool option"
  waiting_for_section :: "bool option"
  pending_course_confirmation :: "pystr option"
  language :: "pystr option"
  waiting_for_language :: bool
  updating_course :: "bool option"
  update_step :: "step option"
  update_course :: "pystr option"
  update_content :: "pystr option"
  update_category :: "pystr option"
  update_ciclo :: "pystr option"
  update_modulo :: "pystr option"
  update_file_path :: "pystr option"
  temp_file_path :: "pystr option"
  can_return_to_menu :: bool

definition flag :: "bool option \<Rightarrow> bool" where
  "flag v = (v = Some True)"

definition create_initial_state :: state where
  "create_initial_state =
     \<lparr>messages = [], course = None, sect = None, ciclo = None, modulo = None,
      waiting_for_course = Some False, waiting_for_ciclo = Some False,
      waiting_for_modulo = Some False, waiting_for_section = Some False,
      pending_course_confirmation = None, language = None, waiting_for_language = True,
      updating_course = Some False, update_step = None, update_course = None,
      update_content = None, update_category = None, update_ciclo = None,
      update_modulo = None, update_file_path = None, temp_file_path = None,
      can_return_to_menu = True\<rparr>"

text \<open>
  \<open>get_user_state\<close> for the user of the session: the state, its history cut to the
  last 50 messages.
\<close>

definition get_user_state :: "state \<Rightarrow> state" where
  "get_user_state s =
     (if length (messages s) > 50
      then s\<lparr>messages := drop (length (messages s) - 50) (messages s)\<rparr> else s)"

text \<open>
  \<open>reset_state\<close>: every key of \<open>keys_to_reset\<close> becomes \<open>None\<close>, except
  \<open>waiting_for_course\<close>, which becomes \<open>False\<close> and then \<open>True\<close>.
\<close>

definition reset_state :: "state \<Rightarrow> state" where
  "reset_state s =
     s\<lparr>course := None, sect := None, ciclo := None, modulo := None,
       waiting_for_course := Some True, waiting_for_ciclo := None,
       waiting_for_modulo := None, waiting_for_section := None,
       pending_course_confirmation := None, updating_course := None,
       update_step := None, update_course := None, update_content := None,
       update_category := None, update_ciclo := None, update_modulo := None,
       update_file_path := None, temp_file_path := None, can_return_to_menu := True\<rparr>"

section \<open>The handlers (main.py)\<close>

text \<open>
  What a turn reads from outside the session:
  \<^item> \<open>uni\<close>: the Unicode tables;
  \<^item> \<open>msg lang key args\<close>: the entry \<open>key\<close> of \<open>get_translated_messages(lang)\<close>,
    formatted with \<open>args\<close>; the theorems hold for every table;
  \<^item> \<open>db\<close>: the rows of the data store, which answers every read;
  \<^item> \<open>llm\<close>: what the successive \<open>llm.invoke\<close> calls of the turn do, in order; a call
    past the end of the list raises.
\<close>

record world =
  uni :: unicode
  msg :: "pystr option \<Rightarrow> string \<Rightarrow> pystr list \<Rightarrow> pystr"
  db :: "course_row list"
  llm :: "llm_reply list"

definition next_reply :: "llm_reply list \<Rightarrow> llm_reply" where
  "next_reply script = (case script of [] \<Rightarrow> Raises | r # rest \<Rightarrow> r)"

text \<open>The incoming message: its text, and whether it carries a document.\<close>

record incoming =
  msg_text :: "pystr option"
  msg_document :: bool

text \<open>
  What a turn does outside the session, in order: a reply to the user, an invocation
  of the language capability (what for, the user text it is about, and what the
  invocation did), the \<open>INSERT\<close> of an update (course, content, category, cycle,
  module, section).
\<close>

datatype llm_use = Moderation | Course_match | Module_match | Category_suggestion | Query_answer

datatype event =
    Reply pystr
  | Invoke llm_use "pystr option" llm_reply
  | Insert_update pystr pystr pystr pystr pystr pystr

text \<open>\<open>str(v)\<close> of an optional string in a format argument.\<close>

definition py_str :: "pystr option \<Rightarrow> pystr" where
  "py_str v = (case v of None \<Rightarrow> str ''None'' | Some s \<Rightarrow> s)"

definition courses_text :: "pystr list \<Rightarrow> pystr" where
  "courses_text available =
     (if available \<noteq> []
      then [10] @ str ''Cursos disponibles:'' @ [10] @ str ''- '' @
           py_join ([10] @ str ''- '') available
      else [10] @ str ''No hay cursos disponibles en la base de datos.'')"

definition courses_text_qu :: "pystr list \<Rightarrow> pystr" where
  "courses_text_qu available =
     (if available \<noteq> []
      then [10] @ str ''Kay yachaykuna kan:'' @ [10] @ str ''- '' @
           py_join ([10] @ str ''- '') available
      else [10] @ str ''Mana yachaykuna kanchu base de datospi.'')"

text \<open>\<open>message and message.lower() in ['menu', '/menu']\<close>.\<close>

definition is_menu :: "unicode \<Rightarrow> pystr option \<Rightarrow> bool" where
  "is_menu u message =
     (case message of
        None \<Rightarrow> False
      | Some m \<Rightarrow> m \<noteq> [] \<and> py_lower u m \<in> set [str ''menu'', str ''/menu''])"

definition menu_reply :: "world \<Rightarrow> pystr option \<Rightarrow> pystr" where
  "menu_reply w lang =
     msg w lang ''return_to_menu'' [] @ [10] @ msg w lang ''welcome'' [] @
     courses_text (course_names (db w)) @ msg w lang ''disclaimer'' []"

definition affirmative :: "pystr list" where
  "affirmative =
     [str ''s'' @ [237], str ''si'', str ''yes'', str ''y'', str ''ar'' @ [237], str ''ari'']"

definition categories :: "pystr list" where
  "categories =
     [str ''EVALUACI'' @ [211] @ str ''N'', str ''CLASE'', str ''TAREA'',
      str ''S'' @ [205] @ str ''LABO'', str ''CRONOGRAMA'', str ''GENERAL'']"

text \<open>
  The names of the required fields that are missing, for the \<open>ValueError\<close> of the last
  step of the update flow.
\<close>

definition missing_fields :: "state \<Rightarrow> pystr list" where
  "missing_fields s =
     (if truthy (update_course s) then [] else [str ''curso'']) @
     (if truthy (sect s) then [] else [str ''secci'' @ [243] @ str ''n'']) @
     (if truthy (update_ciclo s) then [] else [str ''ciclo'']) @
     (if truthy (update_modulo s) then [] else [str ''m'' @ [243] @ str ''dulo'']) @
     (if truthy (update_content s) then [] else [str ''contenido'']) @
     (if truthy (update_category s) then [] else [str ''categor'' @ [237] @ str ''a''])"

text \<open>
  The \<open>try\<close> block that saves the update: a missing field raises \<open>ValueError\<close>, a
  course without a row raises \<open>TypeError\<close>; both are answered with \<open>update_error\<close>
  and leave the state as it is. Otherwise the row is inserted and the state reset.
\<close>

definition save_update :: "world \<Rightarrow> state \<Rightarrow> state \<times> event list" where
  "save_update w s =
     (let lang = language s in
      if missing_fields s \<noteq> [] then
        (s, [Reply (msg w lang ''update_error''
               [str ''Faltan campos requeridos: '' @ py_join (str '', '') (missing_fields s)])])
      else if find (\<lambda>c. Some (course_name c) = update_course s) (db w) = None then
        (s, [Reply (msg w lang ''update_error''
               [[39] @ str ''NoneType'' @ [39] @ str '' object is not subscriptable''])])
      else
        (let content = py_str (update_content s);
             shown = (if length content > 100 then take 100 content @ str ''...'' else content)
         in (reset_state s,
             [Insert_update (py_str (update_course s)) content (py_str (update_category s))
                (py_str (update_ciclo s)) (py_str (update_modulo s)) (py_str (sect s)),
              Reply (msg w lang ''update_summary''
                       [py_str (update_course s), py_str (sect s), py_str (update_category s),
                        py_str (update_ciclo s), py_str (update_modulo s), shown] @
                     [10, 10] @ str ''('' @ msg w lang ''return_to_menu'' [] @ str '')'')])))"

text \<open>
  \<open>handle_update_flow\<close>, with the replies that the language capability still has
  for this turn. \<open>message.lower()\<close> and \<open>message.upper()\<close> on a message without
  text raise \<open>AttributeError\<close>, which the outer \<open>except\<close> answers with
  \<open>error_processing\<close>.
\<close>

definition handle_update_flow ::
  "world \<Rightarrow> llm_reply list \<Rightarrow> state \<Rightarrow> incoming \<Rightarrow> state \<times> event list"
where
  "handle_update_flow w script s0 upd =
     (let s = get_user_state s0; message = msg_text upd; lang = language s in
      if \<not> flag (updating_course s) then (s, [])
      else if is_menu (uni w) message then (reset_state s, [Reply (menu_reply w lang)])
      else
        (case update_step s of
           None \<Rightarrow> (s, [])
         | Some course_selection \<Rightarrow>
             (let matching_course = identify_course (next_reply script) in
              if matching_course \<noteq> str ''NO_MATCH'' then
                (s\<lparr>update_course := Some matching_course, update_step := Some content_input\<rparr>,
                 [Invoke Course_match message (next_reply script),
                  Reply (msg w lang ''course_selected'' [matching_course] @ [10, 10] @
                         msg w lang ''enter_update_content'' [] @ [10, 10] @
                         str ''('' @ msg w lang ''return_to_menu'' [] @ str '')'')])
              else (s, [Invoke Course_match message (next_reply script),
                        Reply (msg w lang ''invalid_course'' [])]))
         | Some content_input \<Rightarrow>
             (case message of
                None \<Rightarrow> (s, [Reply (msg w lang ''update_empty'' [])])
              | Some m \<Rightarrow>
                  if m = [] \<or> py_strip m = [] then (s, [Reply (msg w lang ''update_empty'' [])])
                  else
                    (let verdict = detect_inappropriate_content (next_reply script) in
                     if \<not> fst verdict then
                       (s, [Invoke Moderation message (next_reply script), Reply (snd verdict)])
                     else
                       (let suggested_category = suggest_category (next_reply (tl script)) in
                        (s\<lparr>update_content := Some (py_strip m),
                           update_category := Some suggested_category,
                           update_step := Some category_confirmation\<rparr>,
                         [Invoke Moderation message (next_reply script),
                          Invoke Category_suggestion message (next_reply (tl script)),
                          Reply (msg w lang ''content_received'' [] @ [10, 10] @
                                 msg w lang ''suggested_category'' [suggested_category] @ [10, 10] @
                                 msg w lang ''confirm_category'' [] @ [10, 10] @
                                 str ''('' @ msg w lang ''return_to_menu'' [] @ str '')'')]))))
         | Some category_confirmation \<Rightarrow>
             (case message of
                None \<Rightarrow> (s, [Reply (msg w lang ''error_processing'' [])])
              | Some m \<Rightarrow>
                  if py_lower (uni w) m \<in> set affirmative then
                    (s\<lparr>update_step := Some ciclo_selection\<rparr>,
                     [Reply (msg w lang ''ciclo_selection'' [])])
                  else
                    (s\<lparr>update_step := Some category_input\<rparr>,
                     [Reply (msg w lang ''enter_category'' [] @ [10, 10] @
                             str ''('' @ msg w lang ''return_to_menu'' [] @ str '')'')]))
         | Some category_input \<Rightarrow>
             (case message of
                None \<Rightarrow> (s, [Reply (msg w lang ''error_processing'' [])])
              | Some m \<Rightarrow>
                  if py_upper (uni w) m \<in> set categories then
                    (s\<lparr>update_category := Some (py_upper (uni w) m),
                       update_step := Some ciclo_selection\<rparr>,
                     [Reply (msg w lang ''ciclo_selection'' [])])
                  else (s, [Reply (msg w lang ''invalid_category'' [])]))
         | Some ciclo_selection \<Rightarrow>
             (case message of
                None \<Rightarrow> (s, [Reply (msg w lang ''invalid_ciclo'' [])])
              | Some m \<Rightarrow>
                  if validate_ciclo (uni w) m then
                    (s\<lparr>update_ciclo := Some m, update_step := Some section_selection\<rparr>,
                     [Reply (msg w lang ''section_selection'' [])])
                  else (s, [Reply (msg w lang ''invalid_ciclo'' [])]))
         | Some section_selection \<Rightarrow>
             (case message of
                None \<Rightarrow> (s, [Reply (msg w lang ''invalid_section'' [])])
              | Some m \<Rightarrow>
                  if m \<noteq> [] \<and> py_strip m \<noteq> [] then
                    (s\<lparr>sect := Some (py_strip m), update_step := Some modulo_selection\<rparr>,
                     [Reply (msg w lang ''modulo_selection'' [])])
                  else (s, [Reply (msg w lang ''invalid_section'' [])]))
         | Some modulo_selection \<Rightarrow>
             (let matching_modulo = identify_module (next_reply script) in
              if matching_modulo \<noteq> str ''NO_MATCH'' then
                (let saved = save_update w (s\<lparr>update_modulo := Some matching_modulo\<rparr>)
                 in (fst saved, Invoke Module_match message (next_reply script) # snd saved))
              else (s, [Invoke Module_match message (next_reply script),
                        Reply (msg w lang ''invalid_modulo'' [])]))))"

text \<open>
  The query of \<open>handle_message\<close> for a session that has its course: the course
  record is looked up with the session's cycle, module and section; with a record the
  question goes to the language capability, without one the reply is \<open>no_course_info\<close>.
\<close>

definition answer_query ::
  "world \<Rightarrow> llm_reply list \<Rightarrow> state \<Rightarrow> pystr \<Rightarrow> pystr \<Rightarrow> event list"
where
  "answer_query w script s message name =
     (case get_course_info (db w) name (ciclo s) (modulo s) (sect s) of
        Some info \<Rightarrow>
          [Invoke Query_answer (Some message) (next_reply script),
           Reply (llm_process_query (next_reply script))]
      | None \<Rightarrow>
          [Reply (msg w (language s) ''no_course_info''
                    [name, py_str (ciclo s), py_str (modulo s)])])"

text \<open>
  The steps of \<open>handle_message\<close> after the moderation check, for a session that is
  not in the update flow.
\<close>

definition query_flow ::
  "world \<Rightarrow> llm_reply list \<Rightarrow> state \<Rightarrow> incoming \<Rightarrow> state \<times> event list"
where
  "query_flow w script s upd =
     (let message = msg_text upd; lang = language s; available = course_names (db w) in
      if waiting_for_language s then
        (if message \<in> set [Some (str ''1''), Some (str ''es''),
                             Some (str ''espa'' @ [241] @ str ''ol''), Some (str ''spanish'')] then
           (s\<lparr>language := Some (str ''es''), waiting_for_language := False,
              waiting_for_course := Some True\<rparr>,
            [Reply (msg w lang ''welcome'' [] @ courses_text available @ msg w lang ''disclaimer'' [])])
         else if message \<in> set [Some (str ''2''), Some (str ''qu''),
                                  Some (str ''quechua''), Some (str ''qichwa'')] then
           (s\<lparr>language := Some (str ''qu''), waiting_for_language := False,
              waiting_for_course := Some True\<rparr>,
            [Reply (msg w lang ''welcome'' [] @ courses_text_qu available @
                    msg w lang ''disclaimer'' [])])
         else (s, [Reply (str ''Por favor, selecciona un idioma v'' @ [225] @ str ''lido (1/2)'')]))
      else if flag (waiting_for_course s) \<and> truthy message then
        (let matching_course = identify_course (next_reply script) in
         if matching_course \<noteq> str ''NO_MATCH'' then
           (s\<lparr>course := Some matching_course, waiting_for_course := Some False,
              waiting_for_section := Some True\<rparr>,
            [Invoke Course_match message (next_reply script),
             Reply (msg w lang ''course_selected'' [matching_course] @ [10, 10] @
                    msg w lang ''section_selection'' [])])
         else
           (s, [Invoke Course_match message (next_reply script),
                Reply ([10060] @ str '' No pude encontrar el curso '' @ [39] @ py_str message @
                       [39] @ str ''.'' @ [10, 10] @ str ''Cursos disponibles:'' @ [10] @
                       py_join [10] (map (\<lambda>c. str ''- '' @ c) available) @ [10, 10] @
                       str ''Por favor, intenta escribir el nombre exacto de uno de estos cursos.'')]))
      else if flag (waiting_for_section s) then
        (case message of
           None \<Rightarrow> (s, [Reply (msg w lang ''invalid_section'' [])])
         | Some m \<Rightarrow>
             if m \<noteq> [] \<and> py_strip m \<noteq> [] then
               (s\<lparr>sect := Some (py_strip m), waiting_for_section := Some False,
                  waiting_for_ciclo := Some True\<rparr>,
                [Reply (msg w lang ''ciclo_selection'' [])])
             else (s, [Reply (msg w lang ''invalid_section'' [])]))
      else if flag (waiting_for_ciclo s) then
        (case message of
           None \<Rightarrow> (s, [])
         | Some m \<Rightarrow>
             if m = [] then (s, [])
             else if validate_ciclo (uni w) m then
               (s\<lparr>ciclo := Some m, waiting_for_ciclo := Some False,
                  waiting_for_modulo := Some True\<rparr>,
                [Reply (msg w lang ''modulo_selection'' [])])
             else (s, [Reply (msg w lang ''invalid_ciclo'' [])]))
      else if flag (waiting_for_modulo s) then
        (if truthy message then
           (let matching_modulo = identify_module (next_reply script) in
            if matching_modulo \<noteq> str ''NO_MATCH'' then
              (s\<lparr>modulo := Some matching_modulo, waiting_for_modulo := Some False\<rparr>,
               [Invoke Module_match message (next_reply script),
                Reply (msg w lang ''ready_for_query'' [])])
            else (s, [Invoke Module_match message (next_reply script),
                      Reply (msg w lang ''invalid_modulo'' [])]))
         else (s, []))
      else if msg_document upd then
        (s, [Reply ([10060] @ str '' Lo siento, la subida de documentos no est'' @ [225] @
                    str '' disponible en este momento.'' @ [10] @
                    str ''Por favor, contacta al administrador del curso para subir documentos.'')])
      else
        (case message of
           None \<Rightarrow> (s, [])
         | Some m \<Rightarrow>
             (case course s of
                None \<Rightarrow> (s, [])
              | Some name \<Rightarrow>
                  if m \<noteq> [] \<and> name \<noteq> [] then (s, answer_query w script s m name)
                  else (s, []))))"

text \<open>
  \<open>handle_message\<close>: the reset keyword first, then the moderation check of a
  message with text, then the update flow or the query flow.
\<close>

definition handle_message :: "world \<Rightarrow> state \<Rightarrow> incoming \<Rightarrow> state \<times> event list" where
  "handle_message w s0 upd =
     (let s = get_user_state s0; message = msg_text upd; lang = language s in
      if is_menu (uni w) message \<and> can_return_to_menu s then
        (reset_state s, [Reply (menu_reply w lang)])
      else
        (let checked = truthy message;
             verdict = (if checked then detect_inappropriate_content (next_reply (llm w))
                        else (True, []));
             script = (if checked then tl (llm w) else llm w);
             asked = (if checked then [Invoke Moderation message (next_reply (llm w))] else [])
         in if \<not> fst verdict then (s, asked @ [Reply (snd verdict)])
            else
              (let r = (if flag (updating_course s) then handle_update_flow w script s upd
                        else query_flow w script s upd)
               in (fst r, asked @ snd r))))"

text \<open>The commands \<open>/start\<close> and \<open>/update\<close>, and the language buttons.\<close>

definition start :: "world \<Rightarrow> state \<Rightarrow> state \<times> event list" where
  "start w s0 =
     (let s = get_user_state s0 in
      if \<not> truthy (language s) then
        (s, [Reply (str ''Selecciona tu idioma / Simiykita akllay:'')])
      else
        (s\<lparr>waiting_for_course := Some True, can_return_to_menu := True\<rparr>,
         [Reply (msg w (language s) ''welcome'' [] @
                 (if language s = Some (str ''qu'')
                  then courses_text_qu (course_names (db w))
                  else courses_text (course_names (db w))) @
                 msg w (language s) ''disclaimer'' [])]))"

definition update_course_command :: "world \<Rightarrow> state \<Rightarrow> state \<times> event list" where
  "update_course_command w s0 =
     (let s = get_user_state s0 in
      (s\<lparr>updating_course := Some True, update_step := Some course_selection\<rparr>,
       [Reply (msg w (language s) ''update_welcome'' [] @ [10, 10] @
               msg w (language s) ''course_selection'' [] @
               courses_text (course_names (db w)))]))"

definition language_callback :: "world \<Rightarrow> state \<Rightarrow> pystr \<Rightarrow> state \<times> event list" where
  "language_callback w s0 data =
     (let s = get_user_state s0 in
      (s\<lparr>language := Some data, waiting_for_language := False,
         waiting_for_course := Some True, can_return_to_menu := True\<rparr>,
       [Reply (msg w (Some data) ''welcome'' [] @
               (if data = str ''qu''
                then courses_text_qu (course_names (db w))
                else courses_text (course_names (db w))) @
               msg w (Some data) ''disclaimer'' [])]))"

text \<open>A turn of the session, and the states that turns reach from the initial state.\<close>

datatype turn = Start | Update_command | Language_button pystr | Message incoming

fun turn_state :: "world \<Rightarrow> state \<Rightarrow> turn \<Rightarrow> state" where
  "turn_state w s Start = fst (start w s)"
| "turn_state w s Update_command = fst (update_course_command w s)"
| "turn_state w s (Language_button data) = fst (language_callback w s data)"
| "turn_state w s (Message upd) = fst (handle_message w s upd)"

inductive reachable :: "state \<Rightarrow> bool" where
  initial: "reachable create_initial_state"
| turn: "reachable s \<Longrightarrow> reachable (turn_state w s t)"

text \<open>A run of turns, each in its own world.\<close>

fun run :: "state \<Rightarrow> (world \<times> turn) list \<Rightarrow> state" where
  "run s [] = s"
| "run s ((w, t) # rest) = run (turn_state w s t) rest"


subsection \<open>\<open>process_query\<close>\<close>












fun invokes :: "llm_use \<Rightarrow> event \<Rightarrow> bool" where
  "invokes use (Invoke use' message r) = (use = use')"
| "invokes use e = False"

text \<open>A moderation check of the turn that did not approve the message.\<close>

fun rejection :: "event \<Rightarrow> bool" where
  "rejection (Invoke Moderation message r) = (\<not> fst (detect_inappropriate_content r))"
| "rejection e = False"

text \<open>The moderation verdict in the specification's words: flagged responses, the rest.\<close>

definition flagged :: "llm_reply \<Rightarrow> bool" where
  "flagged r =
     (case r of
        Raises \<Rightarrow> False
      | Content c \<Rightarrow> prefix (str ''INAPPROPRIATE'') (py_strip c) \<and> 58 \<in> set (py_strip c))"

text \<open>The reason of a flagged response: the text after its first colon, stripped.\<close>

definition reason_of :: "llm_reply \<Rightarrow> pystr" where
  "reason_of r =
     (case r of
        Raises \<Rightarrow> []
      | Content c \<Rightarrow>
          (case after_colon (py_strip c) of None \<Rightarrow> [] | Some rest \<Rightarrow> py_strip rest))"

text \<open>
  What holds of every state that turns reach: the menu can be reached, the handlers
  leave the history empty, and \<open>update_step\<close> has a value exactly in the update flow.
\<close>

definition session_inv :: "state \<Rightarrow> bool" where
  "session_inv s =
     (can_return_to_menu s \<and> messages s = [] \<and>
      (update_step s \<noteq> None) = flag (updating_course s))"

text \<open>
  The session awaits the course: of the tests that \<open>handle_message\<close> makes in turn
  after the moderation check (the update flow, the language, the course), the one for
  the course is the first that holds.
\<close>

definition awaiting_course :: "state \<Rightarrow> bool" where
  "awaiting_course s =
     (\<not> flag (updating_course s) \<and> \<not> waiting_for_language s \<and> flag (waiting_for_course s))"

text \<open>The flags of the six modes that are set.\<close>

definition modes_set :: "state \<Rightarrow> nat" where
  "modes_set s =
     length (filter id
       [waiting_for_language s, flag (waiting_for_course s), flag (waiting_for_section s),
        flag (waiting_for_ciclo s), flag (waiting_for_modulo s), flag (updating_course s)])"

text \<open>
  A session in the query flow with its language chosen and at most one mode flag set,
  as the choice of the language leaves the initial state.
\<close>

definition one_mode :: "state \<Rightarrow> bool" where
  "one_mode s = (\<not> waiting_for_language s \<and> \<not> flag (updating_course s) \<and> modes_set s \<le> 1)"

fun is_message :: "turn \<Rightarrow> bool" where
  "is_message (Message upd) = True"
| "is_message t = False"

text \<open>Worlds and messages for concrete runs.\<close>

definition uni0 :: unicode where
  "uni0 = \<lparr>udecimal = (\<lambda>c. None), ulower = (\<lambda>s i. [s ! i]), uupper = (\<lambda>s i. [s ! i])\<rparr>"

definition world0 :: "llm_reply list \<Rightarrow> world" where
  "world0 script = \<lparr>uni = uni0, msg = (\<lambda>lang key args. str key @ concat args), db = [], llm = script\<rparr>"

definition says :: "string \<Rightarrow> incoming" where
  "says s = \<lparr>msg_text = Some (str s), msg_document = False\<rparr>"


text \<open>Concrete sessions, reached by runs from the initial state.\<close>

definition approved :: llm_reply where
  "approved = Content (str ''APPROPRIATE'')"

text \<open>
  A session in the content step of the update flow: the language, \<open>/update\<close>, the
  course.
\<close>

definition fresh_session :: state where
  "fresh_session = run create_initial_state
     [(world0 [approved], Message (says ''es'')),
      (world0 [], Update_command),
      (world0 [approved, Content (str ''Algoritmos'')], Message (says ''algoritmos''))]"

text \<open>
  A session in the content step that entered the update flow a second time, after a
  first content had been accepted.
\<close>

definition stale_session :: state where
  "stale_session = run create_initial_state
     [(world0 [approved], Message (says ''es'')),
      (world0 [], Update_command),
      (world0 [approved, Content (str ''Algoritmos'')], Message (says ''algoritmos'')),
      (world0 [approved, approved, Content (str ''EVALUACION'')], Message (says ''examen'')),
      (world0 [], Update_command),
      (world0 [approved, Content (str ''Algoritmos'')], Message (says ''algoritmos''))]"







section \<open>The cycle validator\<close>

lemma classify_wf: "wf_cls (classify u c)"
  by (auto simp: classify_def split: option.splits)

lemma digit_val_cls: "digit_val u c = cls_digit (classify u c)"
  by (cases "classify u c") (simp_all add: digit_val_def)

lemma body_value_bound:
  "list_all wf_cls r \<Longrightarrow> 0 \<le> a \<Longrightarrow>
     0 \<le> body_value a r \<and> body_value a r < (a + 1) * 10 ^ length (filter is_digit r)"
proof (induction a r rule: body_value.induct)
  case (2 a d r)
  let ?k = "(10::int) ^ length (filter is_digit r)"
  from 2 have lt: "body_value (10 * a + int d) r < (10 * a + int d + 1) * ?k"
    and nonneg: "0 \<le> body_value (10 * a + int d) r"
    by simp_all
  have "10 * a + int d + 1 \<le> (a + 1) * 10"
    using 2 by simp
  then have "(10 * a + int d + 1) * ?k \<le> ((a + 1) * 10) * ?k"
    by (rule mult_right_mono) simp
  with lt have "body_value (10 * a + int d) r < ((a + 1) * 10) * ?k"
    by linarith
  then have "body_value (10 * a + int d) r < (a + 1) * (10 * ?k)"
    by (simp only: mult.assoc)
  with nonneg show ?case by simp
qed simp_all

lemma all_digits_body:
  "list_all is_digit cs \<Longrightarrow> cs \<noteq> [] \<Longrightarrow> body_ok cs"
  by (induction cs rule: body_ok.induct) auto

lemma all_digits_value:
  "list_all is_digit cs \<Longrightarrow> digits_value a (map cls_digit cs) = Some (body_value a cs)"
  by (induction a cs rule: body_value.induct) auto

lemma all_digits_takeWhile:
  "list_all is_digit cs \<Longrightarrow> takeWhile is_body cs = cs \<and> dropWhile is_body cs = []"
  by (induction cs) (auto elim: is_digit.elims)

lemma int_of_all_digits:
  assumes "list_all is_digit cs" "cs \<noteq> []"
  shows "int_of_classes cs = digits_value 0 (map cls_digit cs)"
proof -
  obtain d r where cs: "cs = Digit d # r"
    using assms by (cases cs) (auto elim: is_digit.elims)
  have 1: "dropWhile (\<lambda>c. c = Space) cs = cs" "after_sign cs = cs" "sign_of cs = 1"
    by (simp_all add: cs)
  have 2: "takeWhile is_body cs = cs" "dropWhile is_body cs = []"
    using all_digits_takeWhile [OF assms(1)] by simp_all
  show ?thesis
    unfolding int_of_classes_def Let_def 1 2
    using all_digits_body [OF assms] all_digits_value [OF assms(1), of 0] by simp
qed

lemma digits_value_all:
  "digits_value a (map cls_digit cs) = Some n \<Longrightarrow> list_all is_digit cs"
proof (induction cs arbitrary: a)
  case (Cons c cs)
  then show ?case by (cases c) auto
qed simp

lemma nd_dropWhile: "length (filter Q (dropWhile P xs)) \<le> length (filter Q xs)"
  by (induction xs) auto

lemma nd_takeWhile: "length (filter Q (takeWhile P xs)) \<le> length (filter Q xs)"
  by (induction xs) auto

lemma int_of_classes_digits:
  assumes wf: "list_all wf_cls cs" and res: "int_of_classes cs = Some n"
  shows "n < 10 ^ length (filter is_digit cs)"
proof -
  define r1 where "r1 = dropWhile (\<lambda>c. c = Space) cs"
  define body where "body = takeWhile is_body (after_sign r1)"
  have n: "n = sign_of r1 * body_value 0 body"
    using res unfolding int_of_classes_def Let_def r1_def body_def
    by (simp split: if_splits)
  have r2: "set (after_sign r1) \<subseteq> set r1"
    "length (filter is_digit (after_sign r1)) \<le> length (filter is_digit r1)"
    by (induction r1 rule: after_sign.induct) auto
  have sub: "set body \<subseteq> set cs"
  proof -
    have "set body \<subseteq> set (after_sign r1)" unfolding body_def by (auto dest: set_takeWhileD)
    moreover have "set r1 \<subseteq> set cs" unfolding r1_def by (auto dest: set_dropWhileD)
    ultimately show ?thesis using r2(1) by blast
  qed
  have cnt: "length (filter is_digit body) \<le> length (filter is_digit cs)"
    using nd_takeWhile [of is_digit is_body "after_sign r1"]
      nd_dropWhile [of is_digit "\<lambda>c. c = Space" cs] r2(2)
    unfolding body_def r1_def by linarith
  have "list_all wf_cls body"
    using wf sub by (auto simp: list_all_iff)
  then have b: "0 \<le> body_value 0 body" "body_value 0 body < 10 ^ length (filter is_digit body)"
    using body_value_bound [of body 0] by simp_all
  have "sign_of r1 = 1 \<or> sign_of r1 = - 1"
    by (induction r1 rule: sign_of.induct) auto
  then have "n \<le> body_value 0 body"
    using n b(1) by auto
  also have "\<dots> < 10 ^ length (filter is_digit body)" by (rule b(2))
  also have "\<dots> \<le> (10::int) ^ length (filter is_digit cs)"
    using cnt by (simp add: power_increasing)
  finally show ?thesis .
qed

lemma year_digits:
  assumes wf: "list_all wf_cls cs" and len: "length cs = 4"
    and res: "int_of_classes cs = Some n" and big: "1000 \<le> n"
  shows "list_all is_digit cs"
proof -
  have "n < 10 ^ length (filter is_digit cs)"
    using wf res by (rule int_of_classes_digits)
  moreover have "length (filter is_digit cs) \<le> 4"
    using length_filter_le [of is_digit cs] len by simp
  ultimately have "length (filter is_digit cs) = length cs"
  proof -
    have "\<not> length (filter is_digit cs) \<le> 3"
    proof
      assume "length (filter is_digit cs) \<le> 3"
      then have "(10::int) ^ length (filter is_digit cs) \<le> 10 ^ 3"
        by (intro power_increasing) simp_all
      with \<open>n < 10 ^ length (filter is_digit cs)\<close> big show False by simp
    qed
    with \<open>length (filter is_digit cs) \<le> 4\<close> len show ?thesis by simp
  qed
  then show ?thesis
    by (metis filter_id_conv length_filter_less less_irrefl list_all_iff)
qed

lemma year_eq:
  assumes wf: "list_all wf_cls cs" and len: "length cs = 4"
  shows "(case int_of_classes cs of None \<Rightarrow> False | Some n \<Rightarrow> 2000 \<le> n \<and> n \<le> 2100 \<and> P)
       = (case digits_value 0 (map cls_digit cs) of None \<Rightarrow> False | Some n \<Rightarrow> 2000 \<le> n \<and> n \<le> 2100 \<and> P)"
proof (cases "list_all is_digit cs")
  case True
  moreover have "cs \<noteq> []" using len by auto
  ultimately have "int_of_classes cs = digits_value 0 (map cls_digit cs)"
    by (rule int_of_all_digits)
  then show ?thesis by simp
next
  case False
  then have "digits_value 0 (map cls_digit cs) = None"
    using digits_value_all [of 0 cs] by (cases "digits_value 0 (map cls_digit cs)") auto
  moreover have "\<not> (\<exists>n. int_of_classes cs = Some n \<and> 2000 \<le> n)"
    using False year_digits [OF wf len] by fastforce
  ultimately show ?thesis
    by (auto split: option.splits)
qed

lemma int_of_classes_one:
  "int_of_classes [x] = digits_value 0 [cls_digit x]"
  by (cases x) (simp_all add: int_of_classes_def)

lemma validate_ciclo_eq: "validate_ciclo u s = accepted_cycle u s"
proof (cases "length s = 5")
  case False
  then show ?thesis by (simp add: validate_ciclo_def accepted_cycle_def)
next
  case True
  then have ne: "s \<noteq> []" "take 4 s \<noteq> []" and last: "drop 4 s = [s ! 4]"
    using Cons_nth_drop_Suc [of 4 s] by auto
  have wf: "list_all wf_cls (map (classify u) (take 4 s))"
    by (simp add: list_all_iff classify_wf)
  have len: "length (map (classify u) (take 4 s)) = 4"
    using True by simp
  have dv: "map cls_digit (map (classify u) xs) = map (digit_val u) xs" for xs
    by (simp add: digit_val_cls)
  have sem: "py_int u [s ! 4] = decimal_value (digit_val u) (drop 4 s)"
    by (simp add: last py_int_def decimal_value_def int_of_classes_one digit_val_cls)
  define Q where "Q = (case decimal_value (digit_val u) (drop 4 s) of
      None \<Rightarrow> False | Some m \<Rightarrow> m = 1 \<or> m = 2)"
  have nest: "(case a of None \<Rightarrow> False
        | Some y \<Rightarrow> (case decimal_value (digit_val u) (drop 4 s) of None \<Rightarrow> False
            | Some m \<Rightarrow> 2000 \<le> y \<and> y \<le> 2100 \<and> (m = 1 \<or> m = 2)))
      = (case a of None \<Rightarrow> False | Some y \<Rightarrow> 2000 \<le> y \<and> y \<le> (2100::int) \<and> Q)"
    for a :: "int option"
    unfolding Q_def by (cases a; cases "decimal_value (digit_val u) (drop 4 s)") simp_all
  have "validate_ciclo u s =
      (case int_of_classes (map (classify u) (take 4 s)) of None \<Rightarrow> False
       | Some y \<Rightarrow> 2000 \<le> y \<and> y \<le> 2100 \<and> Q)"
    unfolding validate_ciclo_def sem nest using True ne by (simp add: py_int_def)
  also have "\<dots> = (case digits_value 0 (map (digit_val u) (take 4 s)) of None \<Rightarrow> False
       | Some y \<Rightarrow> 2000 \<le> y \<and> y \<le> 2100 \<and> Q)"
    using year_eq [OF wf len, of Q] by (simp only: dv)
  also have "\<dots> = accepted_cycle u s"
    using True ne by (simp add: accepted_cycle_def decimal_value_def nest)
  finally show ?thesis .
qed

text \<open>On the characters of ASCII, \<open>int\<close> reads the digits \<open>0\<close> to \<open>9\<close> and no other.\<close>

lemma digit_val_ascii: "c < 127 \<Longrightarrow> digit_val u c = ascii_digit c"
  by (simp add: digit_val_def ascii_digit_def classify_def)

lemma accepted_ascii:
  assumes "list_all (\<lambda>c. c < 127) s"
  shows "accepted_cycle u s = cycle_format s"
proof -
  have m: "map (digit_val u) xs = map ascii_digit xs" if "set xs \<subseteq> set s" for xs
    using that assms by (auto simp: list_all_iff digit_val_ascii)
  have t: "decimal_value (digit_val u) (take 4 s) = decimal_value ascii_digit (take 4 s)"
    unfolding decimal_value_def by (simp only: m [OF set_take_subset])
  have d: "decimal_value (digit_val u) (drop 4 s) = decimal_value ascii_digit (drop 4 s)"
    unfolding decimal_value_def by (simp only: m [OF set_drop_subset])
  show ?thesis
    unfolding accepted_cycle_def cycle_format_def t d ..
qed

lemma ascii_digits_ascii:
  "digits_value a (map ascii_digit xs) = Some n \<Longrightarrow> list_all (\<lambda>c. c < 127) xs"
proof (induction xs arbitrary: a)
  case Nil
  then show ?case by simp
next
  case (Cons c xs)
  then show ?case
    by (cases "ascii_digit c") (auto simp: ascii_digit_def split: if_splits)
qed

lemma cycle_format_ascii:
  assumes "cycle_format s"
  shows "list_all (\<lambda>c. c < 127) s"
proof -
  from assms obtain y m where "digits_value 0 (map ascii_digit (take 4 s)) = Some y"
    and "digits_value 0 (map ascii_digit (drop 4 s)) = Some m"
    by (auto simp: cycle_format_def decimal_value_def split: option.splits if_splits)
  then have "list_all (\<lambda>c. c < 127) (take 4 s @ drop 4 s)"
    using ascii_digits_ascii by (simp del: append_take_drop_id)
  then show ?thesis by simp
qed

lemma fullwidth_accepted:
  assumes "udecimal u 65297 = Some 1"
  shows "validate_ciclo u (str ''2024'' @ [65297])"
  using assms
  by (simp add: validate_ciclo_def str_def py_int_def int_of_classes_def classify_def
      py_isspace_def)

lemma fullwidth_format: "\<not> cycle_format (str ''2024'' @ [65297])"
  by (simp add: cycle_format_def decimal_value_def ascii_digit_def str_def)

text \<open>
  C6. The cycle validator accepts every string of the cycle format (four digits that
  form a year in [2000, 2100], then the digit 1 or 2), and among the strings of ASCII
  characters it accepts no other; it accepts "20241" and "20252" and rejects "2024",
  "202413", "19991" and "20243". It does not return true exactly on the format:
  \<open>int\<close> reads every decimal digit of Unicode, so with the fullwidth digit one
  (U+FF11) for its last character the string "2024" with that digit is accepted,
  which the format excludes.
\<close>

theorem validate_ciclo_cycle_format:
  "(cycle_format s \<longrightarrow> validate_ciclo u s) \<and>
   (list_all (\<lambda>c. c < 127) s \<longrightarrow> validate_ciclo u s = cycle_format s) \<and>
   validate_ciclo u (str ''20241'') \<and> validate_ciclo u (str ''20252'') \<and>
   \<not> validate_ciclo u (str ''2024'') \<and> \<not> validate_ciclo u (str ''202413'') \<and>
   \<not> validate_ciclo u (str ''19991'') \<and> \<not> validate_ciclo u (str ''20243'') \<and>
   (udecimal u 65297 = Some 1 \<longrightarrow>
      validate_ciclo u (str ''2024'' @ [65297]) \<and> \<not> cycle_format (str ''2024'' @ [65297]))"
proof -
  have ex: "validate_ciclo u (str ''20241'')" "validate_ciclo u (str ''20252'')"
    "\<not> validate_ciclo u (str ''2024'')" "\<not> validate_ciclo u (str ''202413'')"
    "\<not> validate_ciclo u (str ''19991'')" "\<not> validate_ciclo u (str ''20243'')"
    by (simp_all add: validate_ciclo_def str_def py_int_def int_of_classes_def classify_def)
  have a: "cycle_format s \<longrightarrow> validate_ciclo u s"
    using accepted_ascii [OF cycle_format_ascii, of s u] by (simp add: validate_ciclo_eq)
  have b: "list_all (\<lambda>c. c < 127) s \<longrightarrow> validate_ciclo u s = cycle_format s"
    by (simp add: validate_ciclo_eq accepted_ascii)
  from ex a b fullwidth_accepted [of u] fullwidth_format show ?thesis
    by blast
qed

theorem validate_ciclo_cycle_format_witness:
  "cycle_format (str ''20241'') \<and> list_all (\<lambda>c. c < 127) (str ''20241'') \<and>
   validate_ciclo uni1 (str ''20241'') \<and>
   udecimal uni1 65297 = Some 1 \<and>
   validate_ciclo uni1 (str ''2024'' @ [65297]) \<and> \<not> cycle_format (str ''2024'' @ [65297])"
proof -
  have f: "cycle_format (str ''20241'')"
    by (simp add: cycle_format_def decimal_value_def ascii_digit_def str_def)
  have l: "list_all (\<lambda>c. c < 127) (str ''20241'')"
    by (simp add: str_def)
  have d: "udecimal uni1 65297 = Some 1"
    by (simp add: uni1_def)
  from validate_ciclo_cycle_format [of "str ''20241''" uni1] f l d show ?thesis
    by blast
qed
section \<open>The moderation check\<close>

lemma after_colon_None: "after_colon s = None \<longleftrightarrow> 58 \<notin> set s"
  by (induction s) (auto simp: after_colon_def)

lemma warning_nonempty: "warning_message reason \<noteq> []"
  by (simp add: warning_message_def)

text \<open>
  C4. The moderation check returns \<open>approved = False\<close> with a warning, which is never
  empty, exactly when the response (without the whitespace around it) starts with
  "INAPPROPRIATE" and has a colon, after which the reason stands; on every other
  response, on a response without a colon and on an invocation that raises it returns
  \<open>approved = True\<close> with the empty warning.
\<close>

theorem moderation_fail_open:
  "detect_inappropriate_content r =
     (if flagged r then (False, warning_message (reason_of r)) else (True, [])) \<and>
   warning_message reason \<noteq> [] \<and>
   detect_inappropriate_content Raises = (True, [])"
proof (cases r)
  case (Content c)
  then show ?thesis
    using after_colon_None [of "py_strip c"]
    by (auto simp: detect_inappropriate_content_def flagged_def reason_of_def warning_nonempty
        Let_def split: option.splits)
next
  case Raises
  then show ?thesis
    by (simp add: detect_inappropriate_content_def flagged_def warning_nonempty)
qed

section \<open>Rounding\<close>

lemma bin_up_bounds: "1 \<le> x \<Longrightarrow> 2 ^ bin_up x \<le> x \<and> x < 2 * 2 ^ bin_up x"
proof (induction x rule: bin_up.induct)
  case (1 x)
  show ?case
  proof (cases "x < 2")
    case True
    with 1 show ?thesis by (simp add: bin_up.simps [of x])
  next
    case False
    with 1 have "2 ^ bin_up (x / 2) \<le> x / 2 \<and> x / 2 < 2 * 2 ^ bin_up (x / 2)" by simp
    with False show ?thesis by (simp add: bin_up.simps [of x])
  qed
qed

lemma bin_down_bounds:
  "0 < x \<Longrightarrow> x < 1 \<Longrightarrow> 1 \<le> x * 2 ^ bin_down x \<and> x * 2 ^ bin_down x < 2"
proof (induction x rule: bin_down.induct)
  case (1 x)
  show ?case
  proof (cases "2 * x < 1")
    case True
    with 1 have "1 \<le> 2 * x * 2 ^ bin_down (2 * x) \<and> 2 * x * 2 ^ bin_down (2 * x) < 2" by simp
    with 1 show ?thesis by (simp add: bin_down.simps [of x] mult_ac)
  next
    case False
    with 1 show ?thesis
      by (simp add: bin_down.simps [of x] bin_down.simps [of "2 * x"])
  qed
qed

lemma exponent_floor_log: "0 < x \<Longrightarrow> exponent x = \<lfloor>log 2 x\<rfloor>"
proof -
  assume x: "0 < x"
  show ?thesis
  proof (cases "1 \<le> x")
    case True
    from bin_up_bounds [OF True]
    have "2 powr of_int (int (bin_up x)) \<le> x \<and> x < 2 powr of_int (int (bin_up x) + 1)"
      by (simp add: powr_realpow powr_add)
    then have "\<lfloor>log 2 x\<rfloor> = int (bin_up x)"
      using x floor_log_eq_powr_iff [of x 2 "int (bin_up x)"] by simp
    with True show ?thesis by (simp add: exponent_def)
  next
    case False
    with x have "1 \<le> x * 2 ^ bin_down x \<and> x * 2 ^ bin_down x < 2"
      by (intro bin_down_bounds) simp_all
    moreover have "(2::real) powr of_int (- int (bin_down x)) = 1 / 2 ^ bin_down x"
      by (simp add: powr_minus_divide powr_realpow)
    moreover have "(2::real) powr of_int (- int (bin_down x) + 1) = 2 / 2 ^ bin_down x"
      by (simp add: powr_diff powr_realpow)
    ultimately have "2 powr of_int (- int (bin_down x)) \<le> x \<and>
        x < 2 powr of_int (- int (bin_down x) + 1)"
      by (simp only: pos_divide_le_eq pos_less_divide_eq zero_less_power zero_less_numeral)
    then have "\<lfloor>log 2 x\<rfloor> = - int (bin_down x)"
      using x floor_log_eq_powr_iff [of x 2 "- int (bin_down x)"] by simp
    with False show ?thesis by (simp add: exponent_def)
  qed
qed

lemma powi_powr: "(2::real) powi k = 2 powr of_int k"
  by (simp add: powr_real_of_int')

lemma quantum_log:
  "0 < x \<Longrightarrow> quantum f x = 2 powr of_int (max \<lfloor>log 2 x\<rfloor> (emin f) - int (prec f) + 1)"
  by (simp add: quantum_def exponent_floor_log powi_powr)

lemma rne_of_int: "rne (of_int n) = n"
  by (simp add: rne_def)

lemma rne_cases: "rne x = \<lfloor>x\<rfloor> \<or> rne x = \<lfloor>x\<rfloor> + 1"
  by (simp add: rne_def Let_def)

lemma rne_mono: "x \<le> y \<Longrightarrow> rne x \<le> rne y"
proof -
  assume xy: "x \<le> y"
  then have f: "\<lfloor>x\<rfloor> \<le> \<lfloor>y\<rfloor>" by (rule floor_mono)
  show ?thesis
  proof (cases "\<lfloor>x\<rfloor> = \<lfloor>y\<rfloor>")
    case True
    with xy show ?thesis by (auto simp: rne_def Let_def)
  next
    case False
    with f have "\<lfloor>x\<rfloor> + 1 \<le> \<lfloor>y\<rfloor>" by simp
    moreover have "rne x \<le> \<lfloor>x\<rfloor> + 1" using rne_cases [of x] by auto
    moreover have "\<lfloor>y\<rfloor> \<le> rne y" using rne_cases [of y] by auto
    ultimately show ?thesis by simp
  qed
qed

lemma rne_ge: "of_int n \<le> x \<Longrightarrow> n \<le> rne x"
  using rne_mono [of "of_int n" x] by (simp add: rne_of_int)

lemma rne_le: "x \<le> of_int n \<Longrightarrow> rne x \<le> n"
  using rne_mono [of x "of_int n"] by (simp add: rne_of_int)

lemma quantum_pos: "0 < quantum f x"
  by (simp add: quantum_def)

lemma prec_pos: "0 < prec f"
  by (cases f) simp_all


lemma expo_bounds:
  assumes "0 < x"
  shows "2 powr of_int \<lfloor>log 2 x\<rfloor> \<le> x" "x < 2 powr of_int (\<lfloor>log 2 x\<rfloor> + 1)"
  using assms floor_log_eq_powr_iff [of x 2 "\<lfloor>log 2 x\<rfloor>"] by simp_all

lemma powr_diff_int: "(2::real) powr of_int a / 2 powr of_int b = 2 powr of_int (a - b)"
  by (simp add: powr_diff)

lemma powr_nat_int: "(2::real) powr of_int (int n) = of_int (2 ^ n)"
  by (simp add: powr_realpow)

text \<open>The rounded value of a positive number stays within its binade.\<close>

lemma fl_upper:
  assumes x: "0 < x"
  shows "fl f x \<le> 2 powr of_int (max \<lfloor>log 2 x\<rfloor> (emin f) + 1)"
proof -
  define E where "E = max \<lfloor>log 2 x\<rfloor> (emin f)"
  define q where "q = (2::real) powr of_int (E - int (prec f) + 1)"
  have qx: "quantum f x = q" using x by (simp add: quantum_log q_def E_def)
  have q: "0 < q" by (simp add: q_def)
  have "x < 2 powr of_int (\<lfloor>log 2 x\<rfloor> + 1)" by (rule expo_bounds [OF x])
  also have "\<dots> \<le> 2 powr of_int (E + 1)" by (simp add: E_def)
  finally have "x / q \<le> 2 powr of_int (E + 1) / q" using q by (simp add: divide_right_mono)
  also have "\<dots> = 2 powr of_int (int (prec f))"
    unfolding q_def powr_diff_int by simp
  also have "\<dots> = of_int (2 ^ prec f)" by (rule powr_nat_int)
  finally have "rne (x / q) \<le> 2 ^ prec f" by (rule rne_le)
  then have "of_int (rne (x / q)) \<le> (of_int (2 ^ prec f) :: real)" by (simp only: of_int_le_iff)
  then have "of_int (rne (x / q)) * q \<le> of_int (2 ^ prec f) * q"
    using q by (simp add: mult_right_mono)
  also have "of_int (2 ^ prec f) * q = 2 powr of_int (int (prec f)) * q"
    by (simp only: powr_nat_int)
  also have "\<dots> = 2 powr of_int (E + 1)"
    unfolding q_def by (simp add: powr_add [symmetric])
  finally show ?thesis using x by (simp add: fl_def qx E_def)
qed

lemma fl_lower:
  assumes x: "0 < x" and e: "emin f \<le> \<lfloor>log 2 x\<rfloor>"
  shows "2 powr of_int \<lfloor>log 2 x\<rfloor> \<le> fl f x"
proof -
  define E where "E = \<lfloor>log 2 x\<rfloor>"
  define q where "q = (2::real) powr of_int (E - int (prec f) + 1)"
  have qx: "quantum f x = q" using x e by (simp add: quantum_log q_def E_def max_def)
  have q: "0 < q" by (simp add: q_def)
  obtain n where n: "prec f = Suc n" using prec_pos [of f] by (cases "prec f") auto
  have "2 powr of_int E / q = 2 powr of_int (int n)"
    unfolding q_def powr_diff_int by (simp add: n)
  also have "\<dots> = of_int (2 ^ n)" by (rule powr_nat_int)
  finally have a: "2 powr of_int E / q = of_int (2 ^ n)" .
  have "2 powr of_int E \<le> x" unfolding E_def by (rule expo_bounds [OF x])
  then have "2 powr of_int E / q \<le> x / q" using q by (simp add: divide_right_mono)
  then have "2 ^ n \<le> rne (x / q)" unfolding a by (rule rne_ge)
  then have "(of_int (2 ^ n) :: real) \<le> of_int (rne (x / q))" by (simp only: of_int_le_iff)
  then have "of_int (2 ^ n) * q \<le> of_int (rne (x / q)) * q"
    using q by (simp add: mult_right_mono)
  moreover have "of_int (2 ^ n) * q = 2 powr of_int E"
    using a q by (simp add: field_simps)
  ultimately show ?thesis using x by (simp add: fl_def qx E_def)
qed

lemma fl_mono:
  assumes x: "0 < x" and xy: "x \<le> y"
  shows "fl f x \<le> fl f y"
proof -
  have y: "0 < y" using x xy by simp
  have ee: "\<lfloor>log 2 x\<rfloor> \<le> \<lfloor>log 2 y\<rfloor>"
    using x xy by (intro floor_mono) simp
  define Ex where "Ex = max \<lfloor>log 2 x\<rfloor> (emin f)"
  define Ey where "Ey = max \<lfloor>log 2 y\<rfloor> (emin f)"
  have E: "Ex \<le> Ey" using ee by (simp add: Ex_def Ey_def max_def)
  show ?thesis
  proof (cases "Ex = Ey")
    case True
    then have q: "quantum f x = quantum f y"
      using x y by (simp add: quantum_log Ex_def Ey_def)
    have "x / quantum f y \<le> y / quantum f y"
      using xy quantum_pos [of f y] by (simp add: divide_right_mono)
    then have "rne (x / quantum f y) \<le> rne (y / quantum f y)" by (rule rne_mono)
    then have "(of_int (rne (x / quantum f y)) :: real) \<le> of_int (rne (y / quantum f y))"
      by (simp only: of_int_le_iff)
    then show ?thesis
      using x y quantum_pos [of f y] by (simp add: fl_def q mult_right_mono)
  next
    case False
    with E have lt: "Ex + 1 \<le> Ey" by simp
    then have n: "emin f \<le> \<lfloor>log 2 y\<rfloor>" and ey: "Ey = \<lfloor>log 2 y\<rfloor>"
      by (auto simp: Ex_def Ey_def max_def split: if_splits)
    have "fl f x \<le> 2 powr of_int (Ex + 1)"
      unfolding Ex_def by (rule fl_upper [OF x])
    also have "\<dots> \<le> 2 powr of_int Ey" using lt by simp
    also have "\<dots> \<le> fl f y" unfolding ey by (rule fl_lower [OF y n])
    finally show ?thesis .
  qed
qed


lemma fl_exact:
  assumes lo: "2 powr of_int e \<le> x" and hi: "x < 2 powr of_int (e + 1)"
    and e: "emin f \<le> e"
    and m: "x = of_int m * 2 powr of_int (e - int (prec f) + 1)"
  shows "fl f x = x"
proof -
  have "(0::real) < 2 powr of_int e" by simp
  with lo have x: "0 < x" by linarith
  have fe: "\<lfloor>log 2 x\<rfloor> = e"
    using x lo hi floor_log_eq_powr_iff [of x 2 e] by simp
  have q: "quantum f x = 2 powr of_int (e - int (prec f) + 1)"
    using x e by (simp add: quantum_log fe max_def)
  define Q where "Q = (2::real) powr of_int (e - int (prec f) + 1)"
  have Q: "0 < Q" by (simp add: Q_def)
  have xm: "x = of_int m * Q" using m by (simp add: Q_def)
  then have d: "x / Q = of_int m" using Q by simp
  have "fl f x = of_int (rne (x / Q)) * Q"
    using x by (simp add: fl_def q Q_def)
  also have "\<dots> = of_int m * Q" by (simp only: d rne_of_int)
  also have "\<dots> = x" by (simp only: xm)
  finally show ?thesis .
qed

lemma prec_ge2: "2 \<le> prec f"
  by (cases f) simp_all

lemma emin_neg: "emin f \<le> - 1"
  by (cases f) simp_all

lemma pow_prec: "(2::real) ^ prec f = 2 * 2 ^ (prec f - 1)"
  using prec_pos [of f] by (cases "prec f") simp_all

lemma quantum_one: "(2::real) powr of_int (0 - int (prec f) + 1) = 2 / 2 ^ prec f"
proof -
  have "(2::real) powr of_int (0 - int (prec f) + 1) = 2 powr (1 - real (prec f))"
    by simp
  also have "\<dots> = 2 powr 1 / 2 powr real (prec f)" by (rule powr_diff)
  also have "\<dots> = 2 / 2 ^ prec f" by (simp add: powr_realpow)
  finally show ?thesis .
qed

lemma quantum_half: "(2::real) powr of_int (- 1 - int (prec f) + 1) = 1 / 2 ^ prec f"
proof -
  have "(2::real) powr of_int (- 1 - int (prec f) + 1) = 2 powr (- real (prec f))"
    by simp
  also have "\<dots> = 1 / 2 powr real (prec f)" by (simp add: powr_minus_divide)
  also have "\<dots> = 1 / 2 ^ prec f" by (simp add: powr_realpow)
  finally show ?thesis .
qed

lemma fl_one: "fl f 1 = 1"
proof (rule fl_exact [where e = 0 and m = "2 ^ (prec f - 1)"])
  show "emin f \<le> 0" using emin_neg [of f] by simp
  show "(1::real) = of_int (2 ^ (prec f - 1)) * 2 powr of_int (0 - int (prec f) + 1)"
    unfolding quantum_one by (simp add: pow_prec)
qed simp_all

lemma rne_down:
  assumes "0 \<le> r" "r < 1 / 2 \<or> (r = 1 / 2 \<and> even n)"
  shows "rne (of_int n + r) = n"
proof -
  have "\<lfloor>of_int n + r\<rfloor> = n" using assms by (intro floor_unique) auto
  then show ?thesis using assms by (auto simp: rne_def Let_def)
qed

lemma rne_up:
  assumes "1 / 2 < r" "r < 1"
  shows "rne (of_int n + r) = n + 1"
proof -
  have "\<lfloor>of_int n + r\<rfloor> = n" using assms by (intro floor_unique) auto
  then show ?thesis using assms by (auto simp: rne_def Let_def)
qed


lemma fl_nonneg: "0 < x \<Longrightarrow> 0 \<le> fl f x"
proof -
  assume x: "0 < x"
  have "0 \<le> x / quantum f x" using x quantum_pos [of f x] by simp
  then have "0 \<le> rne (x / quantum f x)" using rne_ge [of 0] by simp
  then show ?thesis using x quantum_pos [of f x] by (simp add: fl_def)
qed

lemma fl_sum_ge1: "0 \<le> d \<Longrightarrow> 1 \<le> fl f (1 + d)"
  using fl_mono [of 1 "1 + d" f] by (simp add: fl_one)

lemma score_bounds: "0 \<le> d \<Longrightarrow> 0 \<le> score_of f d \<and> score_of f d \<le> 1"
proof -
  assume d: "0 \<le> d"
  have y: "1 \<le> fl f (1 + d)" by (rule fl_sum_ge1 [OF d])
  then have p: "0 < 1 / fl f (1 + d)" and l: "1 / fl f (1 + d) \<le> 1" by simp_all
  from fl_nonneg [OF p] fl_mono [OF p l, of f] show ?thesis
    by (simp add: score_of_def fl_one)
qed

lemma score_antimono: "0 \<le> a \<Longrightarrow> a \<le> b \<Longrightarrow> score_of f b \<le> score_of f a"
proof -
  assume a: "0 \<le> a" and ab: "a \<le> b"
  have ya: "1 \<le> fl f (1 + a)" by (rule fl_sum_ge1 [OF a])
  have "fl f (1 + a) \<le> fl f (1 + b)" using a ab by (intro fl_mono) simp_all
  with ya have "0 < 1 / fl f (1 + b)" "1 / fl f (1 + b) \<le> 1 / fl f (1 + a)"
    by (simp_all add: frac_le)
  then show ?thesis unfolding score_of_def by (rule fl_mono)
qed

lemma quantum_near_one:
  assumes "1 \<le> x" "x < 2"
  shows "quantum f x = 2 / 2 ^ prec f"
proof -
  have "\<lfloor>log 2 x\<rfloor> = 0"
    using assms floor_log_eq_powr_iff [of x 2 0] by simp
  then show ?thesis
    using assms emin_neg [of f] by (simp add: quantum_log max_def quantum_one [symmetric])
qed

lemma fl_near_one:
  assumes "1 \<le> x" "x < 2"
  shows "fl f x = of_int (rne (of_int (2 ^ (prec f - 1)) + (x - 1) * 2 ^ (prec f - 1))) / 2 ^ (prec f - 1)"
proof -
  have "x / quantum f x = of_int (2 ^ (prec f - 1)) + (x - 1) * 2 ^ (prec f - 1)"
    unfolding quantum_near_one [OF assms] by (simp add: pow_prec [of f] field_simps)
  then show ?thesis
    using assms unfolding fl_def quantum_near_one [OF assms]
    by (simp add: pow_prec [of f])
qed

lemma even_half_prec: "even ((2::int) ^ (prec f - 1))"
  using prec_ge2 [of f] by simp

lemma half_ulp_small: "(1::real) / 2 ^ prec f \<le> 1 / 4" "(0::real) < 1 / 2 ^ prec f"
  by (cases f; simp)+

lemma fl_rounds_to_one:
  assumes d: "0 \<le> d" and s: "d \<le> 1 / 2 ^ prec f"
  shows "fl f (1 + d) = 1"
proof -
  have x: "1 \<le> 1 + d" "1 + d < 2"
    using d s half_ulp_small [of f] by linarith+
  have r: "d * 2 ^ (prec f - 1) \<le> 1 / 2"
    using s by (simp add: pow_prec [of f] field_simps)
  have "rne (of_int (2 ^ (prec f - 1)) + d * 2 ^ (prec f - 1)) = 2 ^ (prec f - 1)"
    using d r even_half_prec [of f] by (intro rne_down) auto
  then show ?thesis
    unfolding fl_near_one [OF x] by simp
qed

lemma fl_rounds_up:
  assumes s: "1 / 2 ^ prec f < d"
  shows "1 + 2 / 2 ^ prec f \<le> fl f (1 + d)"
proof (cases "d < 2 / 2 ^ prec f")
  case True
  have x: "1 \<le> 1 + d" "1 + d < 2"
    using s True half_ulp_small [of f] by linarith+
  have "1 / 2 < d * 2 ^ (prec f - 1)" "d * 2 ^ (prec f - 1) < 1"
    using s True by (simp_all add: pow_prec [of f] field_simps)
  then have "rne (of_int (2 ^ (prec f - 1)) + d * 2 ^ (prec f - 1)) = 2 ^ (prec f - 1) + 1"
    by (rule rne_up)
  then show ?thesis
    unfolding fl_near_one [OF x] by (simp add: pow_prec [of f] field_simps)
next
  case False
  have e: "fl f (1 + 2 / 2 ^ prec f) = 1 + 2 / 2 ^ prec f"
  proof (rule fl_exact [where e = 0 and m = "2 ^ (prec f - 1) + 1"])
    show "emin f \<le> 0" using emin_neg [of f] by simp
    show "1 + 2 / 2 ^ prec f
        = real_of_int (2 ^ (prec f - 1) + 1) * 2 powr of_int (0 - int (prec f) + 1)"
      unfolding quantum_one by (simp add: pow_prec [of f] field_simps)
    show "1 + 2 / 2 ^ prec f < (2::real) powr of_int (0 + 1)"
      using half_ulp_small [of f] by simp
  qed simp
  have "fl f (1 + 2 / 2 ^ prec f) \<le> fl f (1 + d)"
    using False by (intro fl_mono) (simp_all add: add_pos_nonneg)
  then show ?thesis by (simp only: e)
qed

lemma fl_below_one: "fl f (1 - 1 / 2 ^ prec f) = 1 - 1 / 2 ^ prec f"
proof (rule fl_exact [where e = "- 1" and m = "2 ^ prec f - 1"])
  show "emin f \<le> - 1" by (rule emin_neg)
  show "1 - 1 / 2 ^ prec f
      = real_of_int (2 ^ prec f - 1) * 2 powr of_int (- 1 - int (prec f) + 1)"
    unfolding quantum_half by (simp add: field_simps)
  show "(2::real) powr of_int (- 1) \<le> 1 - 1 / 2 ^ prec f"
    using half_ulp_small [of f] by (simp add: powr_minus_divide)
  show "1 - 1 / 2 ^ prec f < (2::real) powr of_int (- 1 + 1)" by simp
qed

lemma score_one_iff:
  assumes d: "0 \<le> d"
  shows "(score_of f d = 1) = (d \<le> 1 / 2 ^ prec f)"
proof (cases "d \<le> 1 / 2 ^ prec f")
  case True
  then show ?thesis
    by (simp add: score_of_def fl_rounds_to_one [OF d] fl_one)
next
  case False
  define q where "q = (2::real) / 2 ^ prec f"
  have q: "0 < q" "q < 1" using half_ulp_small [of f] by (simp_all add: q_def)
  from False have y: "1 + q \<le> fl f (1 + d)"
    unfolding q_def by (intro fl_rounds_up) simp
  then have p: "0 < 1 / fl f (1 + d)" using q by simp
  have "1 / fl f (1 + d) \<le> 1 / (1 + q)"
    using y q by (intro divide_left_mono) simp_all
  also have "\<dots> \<le> 1 - q / 2"
    using q by (simp add: field_simps)
  finally have "fl f (1 / fl f (1 + d)) \<le> fl f (1 - q / 2)"
    using p by (intro fl_mono)
  also have "1 - q / 2 = 1 - 1 / 2 ^ prec f" by (simp add: q_def)
  finally have "score_of f d \<le> 1 - 1 / 2 ^ prec f"
    by (simp only: fl_below_one score_of_def)
  then have "score_of f d < 1" using half_ulp_small [of f] by linarith
  with False show ?thesis by simp
qed

lemma fl_pow2:
  assumes "emin f \<le> k"
  shows "fl f (2 powr of_int k) = 2 powr of_int k"
proof (rule fl_exact [where e = k and m = "2 ^ (prec f - 1)"])
  have "(2::real) powr of_int (k - int (prec f) + 1)
      = 2 powr of_int k * 2 powr of_int (0 - int (prec f) + 1)"
    by (simp add: powr_add [symmetric] algebra_simps)
  then show "(2::real) powr of_int k
      = of_int (2 ^ (prec f - 1)) * 2 powr of_int (k - int (prec f) + 1)"
    unfolding quantum_one by (simp add: pow_prec [of f])
qed (simp_all add: assms)

lemma score_of_zero: "score_of f 0 = 1"
  by (simp add: score_of_def fl_one)

lemma score_of_one: "score_of f 1 = 1 / 2"
proof -
  have "fl f (2 powr of_int 1) = 2 powr of_int 1"
    using emin_neg [of f] by (intro fl_pow2) simp
  then have a: "fl f 2 = 2" by simp
  have "fl f (2 powr of_int (- 1)) = 2 powr of_int (- 1)"
    using emin_neg [of f] by (intro fl_pow2) simp
  then have b: "fl f (1 / 2) = 1 / 2" by (simp add: powr_minus_divide)
  show ?thesis by (simp add: score_of_def a b)
qed
section \<open>The content index\<close>

lemma l2_nonneg: "0 \<le> l2 d q v"
  unfolding l2_def by (rule sum_list_nonneg) auto

lemma scores_sorted:
  "sorted (map g xs) \<Longrightarrow> (\<And>x. 0 \<le> g x) \<Longrightarrow>
     sorted_wrt (\<ge>) (map (\<lambda>x. score_of f (g x)) xs)"
  by (induction xs) (auto simp: score_antimono)

lemma py_index_nat: "i < length xs \<Longrightarrow> py_index xs (int i) = Some (xs ! i)"
  by (simp add: py_index_def)

lemma format_results_found:
  assumes "\<And>i. i \<in> set js \<Longrightarrow> i < length (texts s) \<and> i < length (metadata s)"
  shows "format_results f s (map (\<lambda>i. (g i, int i)) js)
       = Some (map (\<lambda>i. (texts s ! i, metadata s ! i, score_of f (g i))) js)"
  using assms by (induction js) (simp_all add: py_index_nat)

lemma search_full:
  assumes idx: "index s = Some vs" and len: "length vs = length (texts s)"
    and md: "length (metadata s) = length (texts s)"
    and ok: "\<not> embed_fails enc [q]" and k: "int (length (texts s)) \<le> k"
  shows "search enc s q k =
     map (\<lambda>i. (texts s ! i, metadata s ! i,
                score_of (arith enc) (l2 (dim enc) (embed enc q) (vs ! i))))
       (sort_key (\<lambda>i. l2 (dim enc) (embed enc q) (vs ! i)) [0..<length vs])"
proof (cases "length (texts s) = 0")
  case True
  then show ?thesis using idx len ok by (simp add: search_def)
next
  case False
  let ?g = "\<lambda>i. l2 (dim enc) (embed enc q) (vs ! i)"
  let ?order = "sort_key ?g [0..<length vs]"
  have mk: "min k (int (length (texts s))) = int (length (texts s))"
    using k by simp
  have fs: "faiss_search (dim enc) vs (embed enc q) (int (length (texts s)))
      = Some (map (\<lambda>i. (?g i, int i)) ?order)"
    using False len by (simp add: faiss_search_def Let_def)
  have "format_results (arith enc) s (map (\<lambda>i. (?g i, int i)) ?order)
      = Some (map (\<lambda>i. (texts s ! i, metadata s ! i, score_of (arith enc) (?g i))) ?order)"
    by (rule format_results_found) (simp add: len md)
  then show ?thesis
    using False idx ok by (simp add: search_def mk fs)
qed

lemma add_after_clear:
  assumes "add_texts enc (clear s) ts md = Inr s'" "aligned_op (Add ts md)"
  shows "index s' = Some (map (embed enc) ts) \<and> texts s' = ts \<and> length (metadata s') = length ts"
  using assms
  by (cases md) (auto simp: add_texts_def clear_def Let_def split: if_splits)

lemma add_texts_returns:
  "\<not> embed_fails enc ts \<Longrightarrow> ts \<noteq> [] \<Longrightarrow> \<exists>s'. add_texts enc s ts md = Inr s'"
  by (simp add: add_texts_def Let_def)

lemma add_texts_empty:
  "\<not> embed_fails enc [] \<Longrightarrow> add_texts enc (clear s) [] md = Inl IndexError"
  by (simp add: add_texts_def clear_def)

lemma search_cleared: "search enc (clear s) q k = []"
  by (simp add: search_def clear_def)

lemma search_after_add:
  assumes add: "add_texts enc (clear s) ts md = Inr s'"
    and al: "aligned_op (Add ts md)"
    and ok: "\<not> embed_fails enc [q]"
    and k: "int (length ts) \<le> k"
  shows "length (search enc s' q k) = length ts \<and>
         sorted_wrt (\<ge>) (map (\<lambda>r. snd (snd r)) (search enc s' q k))"
proof -
  from add_after_clear [OF add al]
  have idx: "index s' = Some (map (embed enc) ts)" and tx: "texts s' = ts"
    and md: "length (metadata s') = length (texts s')"
    by simp_all
  let ?vs = "map (embed enc) ts"
  let ?g = "\<lambda>i. l2 (dim enc) (embed enc q) (?vs ! i)"
  have eq: "search enc s' q k =
     map (\<lambda>i. (texts s' ! i, metadata s' ! i, score_of (arith enc) (?g i)))
       (sort_key ?g [0..<length ?vs])"
    by (rule search_full [OF idx _ md ok]) (simp_all add: tx k)
  have "sorted_wrt (\<ge>) (map (\<lambda>i. score_of (arith enc) (?g i)) (sort_key ?g [0..<length ?vs]))"
    by (rule scores_sorted) (simp_all add: l2_nonneg)
  then show ?thesis
    unfolding eq by (simp add: comp_def)
qed

text \<open>
  C5, as the code has it. Clear the index, then call \<open>add_texts\<close> with N fragments:
  texts that the embedding model encodes, their metadata absent, empty or one per
  text. For \<open>N \<ge> 1\<close> the call returns, and \<open>search\<close> with \<open>k \<ge> N\<close> and a query that
  the model encodes returns exactly N results, their scores in non-increasing order.
  For \<open>N = 0\<close> the call raises an \<open>IndexError\<close> and leaves the cleared index, on
  which \<open>search\<close> returns no result.
\<close>

theorem search_returns_all_sorted:
  assumes al: "aligned_op (Add ts md)"
    and enc: "\<not> embed_fails enc ts"
    and ok: "\<not> embed_fails enc [q]"
    and k: "int (length ts) \<le> k"
  shows "(ts \<noteq> [] \<longrightarrow> (\<exists>s'. add_texts enc (clear s) ts md = Inr s')) \<and>
         (ts = [] \<longrightarrow> add_texts enc (clear s) ts md = Inl IndexError) \<and>
         length (search enc (apply_op enc (clear s) (Add ts md)) q k) = length ts \<and>
         sorted_wrt (\<ge>)
           (map (\<lambda>r. snd (snd r)) (search enc (apply_op enc (clear s) (Add ts md)) q k))"
proof (cases "ts = []")
  case True
  then have "add_texts enc (clear s) ts md = Inl IndexError"
    using enc by (simp add: add_texts_empty)
  then show ?thesis
    using True by (simp add: search_cleared)
next
  case False
  then obtain s' where add: "add_texts enc (clear s) ts md = Inr s'"
    using add_texts_returns [OF enc] by blast
  from search_after_add [OF add al ok k] show ?thesis
    using False add by simp
qed

text \<open>
  Two fragments, the farther one added first: the nearer one comes first in the
  result. And no fragment: the call raises and the search finds nothing.
\<close>

theorem search_returns_all_sorted_witness:
  "search enc0 (apply_op enc0 (clear new_search) (Add [str ''abc'', str ''ab''] None)) (str ''ab'') 5
     = [(str ''ab'', [], 1), (str ''abc'', [], 1 / 2)] \<and>
   add_texts enc0 (clear new_search) [str ''abc'', str ''ab''] None
     = Inr \<lparr>index = Some (map (embed enc0) [str ''abc'', str ''ab'']),
            texts = [str ''abc'', str ''ab''], metadata = [[], []]\<rparr> \<and>
   sorted_wrt (\<ge>) (map (\<lambda>r. snd (snd r))
     (search enc0 (apply_op enc0 (clear new_search) (Add [str ''abc'', str ''ab''] None))
        (str ''ab'') 5)) \<and>
   add_texts enc0 (clear new_search) [] None = Inl IndexError \<and>
   length (search enc0 (apply_op enc0 (clear new_search) (Add [] None)) (str ''ab'') 0) = 0"
proof -
  let ?s' = "\<lparr>index = Some (map (embed enc0) [str ''abc'', str ''ab'']),
            texts = [str ''abc'', str ''ab''], metadata = [[], []]\<rparr>"
  have add: "add_texts enc0 (clear new_search) [str ''abc'', str ''ab''] None = Inr ?s'"
    by (simp add: add_texts_def clear_def new_search_def enc0_def)
  have d: "l2 (dim enc0) (embed enc0 (str ''ab'')) (embed enc0 (str ''abc'')) = 1"
    "l2 (dim enc0) (embed enc0 (str ''ab'')) (embed enc0 (str ''ab'')) = 0"
    by (simp_all add: l2_def enc0_def str_def)
  have "search enc0 ?s' (str ''ab'') 5
      = map (\<lambda>i. (texts ?s' ! i, metadata ?s' ! i,
                   score_of (arith enc0)
                     (l2 (dim enc0) (embed enc0 (str ''ab''))
                        (map (embed enc0) [str ''abc'', str ''ab''] ! i))))
          (sort_key (\<lambda>i. l2 (dim enc0) (embed enc0 (str ''ab''))
                            (map (embed enc0) [str ''abc'', str ''ab''] ! i))
             [0..<length (map (embed enc0) [str ''abc'', str ''ab''])])"
    by (rule search_full) (simp_all add: enc0_def)
  also have "\<dots> = [(str ''ab'', [], 1), (str ''abc'', [], 1 / 2)]"
    by (simp add: upt_rec [of 0] upt_rec [of 1] d score_of_zero score_of_one)
  finally have res: "search enc0 ?s' (str ''ab'') 5 = [(str ''ab'', [], 1), (str ''abc'', [], 1 / 2)]" .
  have ap: "apply_op enc0 (clear new_search) (Add [str ''abc'', str ''ab''] None) = ?s'"
    by (simp add: add)
  have al: "aligned_op (Add [str ''abc'', str ''ab''] None)" "aligned_op (Add [] None)"
    by simp_all
  have ok: "\<not> embed_fails enc0 [str ''abc'', str ''ab'']" "\<not> embed_fails enc0 [str ''ab'']"
    "\<not> embed_fails enc0 []"
    by (simp_all add: enc0_def)
  have k: "int (length [str ''abc'', str ''ab'']) \<le> 5" "int (length ([] :: pystr list)) \<le> 0"
    by simp_all
  note two = search_returns_all_sorted [OF al(1) ok(1) ok(2) k(1), of new_search]
  note none = search_returns_all_sorted [OF al(2) ok(3) ok(2) k(2), of new_search]
  have c1: "search enc0 (apply_op enc0 (clear new_search) (Add [str ''abc'', str ''ab''] None))
      (str ''ab'') 5 = [(str ''ab'', [], 1), (str ''abc'', [], 1 / 2)]"
    unfolding ap by (rule res)
  have c3: "sorted_wrt (\<ge>) (map (\<lambda>r. snd (snd r))
     (search enc0 (apply_op enc0 (clear new_search) (Add [str ''abc'', str ''ab''] None))
        (str ''ab'') 5))"
    using two by blast
  have c4: "add_texts enc0 (clear new_search) [] None = Inl IndexError"
    using none by blast
  have "length (search enc0 (apply_op enc0 (clear new_search) (Add [] None)) (str ''ab'') 0)
      = length ([] :: pystr list)"
    using none by blast
  then have c5: "length (search enc0 (apply_op enc0 (clear new_search) (Add [] None))
      (str ''ab'') 0) = 0"
    by (simp only: list.size)
  from c1 add c3 c4 c5 show ?thesis
    by blast
qed

text \<open>
  No fragment: \<open>add_texts\<close> raises, though the embedding model encodes the empty
  list.
\<close>

theorem add_nothing_counterexample:
  "\<not> embed_fails enc0 [] \<and> add_texts enc0 (clear new_search) [] None = Inl IndexError"
  by (simp add: add_texts_def clear_def new_search_def enc0_def)

section \<open>The score of a result\<close>

lemma pad_distance_nonneg: "0 \<le> pad_distance"
  by (simp add: pad_distance_def)

lemma format_results_scores:
  assumes "format_results f s found = Some rs" and "(t, m, sc) \<in> set rs"
  shows "\<exists>d i. (d, i) \<in> set found \<and> sc = score_of f d"
  using assms
proof (induction found arbitrary: rs)
  case Nil
  then show ?case by simp
next
  case (Cons p found)
  obtain d i where p: "p = (d, i)" by (cases p)
  show ?case
  proof (cases "i < int (length (texts s))")
    case False
    with Cons p show ?thesis by auto
  next
    case True
    with Cons.prems p obtain t0 m0 rs0 where
      c: "format_results f s found = Some rs0" and rs: "rs = (t0, m0, score_of f d) # rs0"
      by (auto split: option.splits)
    from Cons.prems(2) rs consider "sc = score_of f d" | "(t, m, sc) \<in> set rs0"
      by auto
    then show ?thesis
    proof cases
      case 1
      then show ?thesis using p by auto
    next
      case 2
      then show ?thesis using Cons.IH [OF c] by auto
    qed
  qed
qed

lemma faiss_search_distances:
  assumes "faiss_search n vs q k = Some found" and "(d, i) \<in> set found"
  shows "d = pad_distance \<or> (\<exists>v \<in> set vs. d = l2 n q v)"
proof -
  let ?order = "sort_key (\<lambda>i. l2 n q (vs ! i)) [0..<length vs]"
  from assms have "(d, i) \<in> set (map (\<lambda>i. (l2 n q (vs ! i), int i)) (take (nat k) ?order))
      \<or> d = pad_distance"
    by (auto simp: faiss_search_def Let_def split: if_splits)
  then show ?thesis
  proof
    assume "(d, i) \<in> set (map (\<lambda>i. (l2 n q (vs ! i), int i)) (take (nat k) ?order))"
    then obtain j where j: "j \<in> set (take (nat k) ?order)" and d: "d = l2 n q (vs ! j)"
      by auto
    from j have "j \<in> set ?order" by (rule in_set_takeD)
    then have "j < length vs" by simp
    with d show ?thesis by auto
  qed simp
qed

lemma search_scores:
  assumes r: "(t, m, sc) \<in> set (search enc s q k)"
  shows "\<exists>d. (d = pad_distance \<or>
              (\<exists>vs v. index s = Some vs \<and> v \<in> set vs \<and> d = l2 (dim enc) (embed enc q) v)) \<and>
             0 \<le> d \<and> sc = score_of (arith enc) d"
proof -
  from r obtain vs where idx: "index s = Some vs"
    by (cases "index s") (auto simp: search_def split: if_splits)
  let ?k = "min k (int (length (texts s)))"
  from r idx obtain found where fs: "faiss_search (dim enc) vs (embed enc q) ?k = Some found"
    by (cases "faiss_search (dim enc) vs (embed enc q) ?k")
      (auto simp: search_def split: if_splits)
  from r idx fs obtain rs where fr: "format_results (arith enc) s found = Some rs"
    by (cases "format_results (arith enc) s found") (auto simp: search_def split: if_splits)
  from r idx fs fr have mem: "(t, m, sc) \<in> set rs"
    by (auto simp: search_def split: if_splits)
  from format_results_scores [OF fr mem] obtain d i where
    di: "(d, i) \<in> set found" and sc: "sc = score_of (arith enc) d"
    by blast
  from faiss_search_distances [OF fs di]
  have "d = pad_distance \<or> (\<exists>v \<in> set vs. d = l2 (dim enc) (embed enc q) v)" .
  then have "(d = pad_distance \<or>
      (\<exists>vs v. index s = Some vs \<and> v \<in> set vs \<and> d = l2 (dim enc) (embed enc q) v)) \<and> 0 \<le> d"
    using idx pad_distance_nonneg l2_nonneg by auto
  with sc show ?thesis by blast
qed

text \<open>
  C8, as the code has it. The score of every search result is \<open>score_of\<close> of a
  non-negative distance: the squared distance from the query to a vector of the
  index (or the distance of a missing result), one added and the quotient taken in
  the arithmetic of the format. So every returned score lies in [0, 1]. The score of the distance 0 is 1;
  the score of a distance is 1 exactly when the sum of 1 and the distance rounds to
  1, that is when the distance is at most \<open>2\<close> to the power \<open>- prec\<close>.
\<close>

theorem score_in_unit_interval:
  "(\<forall>r \<in> set (search enc s q k).
      \<exists>d. (d = pad_distance \<or>
           (\<exists>vs v. index s = Some vs \<and> v \<in> set vs \<and> d = l2 (dim enc) (embed enc q) v)) \<and>
          0 \<le> d \<and> snd (snd r) = score_of (arith enc) d \<and>
          0 \<le> snd (snd r) \<and> snd (snd r) \<le> 1) \<and>
   (0 \<le> d \<longrightarrow>
      0 \<le> score_of f d \<and> score_of f d \<le> 1 \<and> (score_of f d = 1) = (d \<le> 1 / 2 ^ prec f)) \<and>
   score_of f 0 = 1"
proof (intro conjI ballI impI)
  fix r assume r: "r \<in> set (search enc s q k)"
  obtain t m sc where "r = (t, m, sc)" by (cases r)
  with r search_scores [of t m sc enc s q k] obtain d where
    d: "d = pad_distance \<or>
        (\<exists>vs v. index s = Some vs \<and> v \<in> set vs \<and> d = l2 (dim enc) (embed enc q) v)"
      "0 \<le> d" "snd (snd r) = score_of (arith enc) d"
    by auto
  with score_bounds [OF d(2), of "arith enc"]
  show "\<exists>d. (d = pad_distance \<or>
           (\<exists>vs v. index s = Some vs \<and> v \<in> set vs \<and> d = l2 (dim enc) (embed enc q) v)) \<and>
          0 \<le> d \<and> snd (snd r) = score_of (arith enc) d \<and>
          0 \<le> snd (snd r) \<and> snd (snd r) \<le> 1"
    by auto
next
  assume d: "0 \<le> d"
  from score_bounds [OF d] show "0 \<le> score_of f d" "score_of f d \<le> 1" by simp_all
  from score_one_iff [OF d] show "(score_of f d = 1) = (d \<le> 1 / 2 ^ prec f)" .
next
  show "score_of f 0 = 1" by (rule score_of_zero)
qed

lemma near_distance: "l2 (dim enc1) (embed enc1 []) (embed enc1 (str ''a'')) = 1 / 2 ^ 70"
  by (simp add: l2_def enc1_def str_def power2_eq_square)

lemma near_score: "score_of Binary32 (1 / 2 ^ 70) = 1" "score_of Binary64 (1 / 2 ^ 70) = 1"
  by (subst score_one_iff, simp_all)+

lemma near_search:
  "search enc1 (apply_op enc1 new_search (Add [str ''a''] None)) [] 1 = [(str ''a'', [], 1)]"
proof -
  let ?s' = "\<lparr>index = Some (map (embed enc1) [str ''a'']), texts = [str ''a''],
             metadata = [[]]\<rparr>"
  define e where "e = (1::real) / 2 ^ 70"
  have ap: "apply_op enc1 new_search (Add [str ''a''] None) = ?s'"
    by (simp add: add_texts_def new_search_def enc1_def)
  have d: "l2 (dim enc1) (embed enc1 []) (embed enc1 (str ''a'')) = e"
    unfolding e_def by (rule near_distance)
  have "arith enc1 = Binary32" by (simp add: enc1_def)
  then have s: "score_of (arith enc1) e = 1"
    unfolding e_def by (simp only: near_score)
  have "search enc1 ?s' [] 1
      = map (\<lambda>i. (texts ?s' ! i, metadata ?s' ! i,
                   score_of (arith enc1)
                     (l2 (dim enc1) (embed enc1 []) (map (embed enc1) [str ''a''] ! i))))
          (sort_key (\<lambda>i. l2 (dim enc1) (embed enc1 []) (map (embed enc1) [str ''a''] ! i))
             [0..<length (map (embed enc1) [str ''a''])])"
    by (rule search_full) (simp_all add: enc1_def)
  also have "\<dots> = [(str ''a'', [], 1)]"
    by (simp add: d s)
  finally show ?thesis by (simp only: ap)
qed

theorem score_in_unit_interval_witness:
  "(str ''a'', [], 1) \<in> set (search enc1 (apply_op enc1 new_search (Add [str ''a''] None)) [] 1) \<and>
   (\<exists>d. (d = pad_distance \<or>
         (\<exists>vs v. index (apply_op enc1 new_search (Add [str ''a''] None)) = Some vs \<and>
                 v \<in> set vs \<and> d = l2 (dim enc1) (embed enc1 []) v)) \<and>
        0 \<le> d \<and> 1 = score_of (arith enc1) d) \<and>
   (0::real) \<le> 1 \<and> score_of Binary64 1 = 1 / 2 \<and> 0 \<le> score_of Binary64 1 \<and>
   score_of Binary64 1 \<le> 1 \<and> \<not> (1::real) \<le> 1 / 2 ^ prec Binary64 \<and>
   score_of Binary64 0 = 1"
proof -
  let ?s = "apply_op enc1 new_search (Add [str ''a''] None)"
  note t = score_in_unit_interval [of enc1 ?s "[]" 1 1 Binary64]
  have mem: "(str ''a'', [], 1) \<in> set (search enc1 ?s [] 1)"
    by (simp only: near_search list.set insertI1)
  from t have "\<forall>r \<in> set (search enc1 ?s [] 1).
      \<exists>d. (d = pad_distance \<or>
           (\<exists>vs v. index ?s = Some vs \<and> v \<in> set vs \<and> d = l2 (dim enc1) (embed enc1 []) v)) \<and>
          0 \<le> d \<and> snd (snd r) = score_of (arith enc1) d \<and>
          0 \<le> snd (snd r) \<and> snd (snd r) \<le> 1"
    by (rule conjunct1)
  from bspec [OF this mem]
  have a: "\<exists>d. (d = pad_distance \<or>
         (\<exists>vs v. index ?s = Some vs \<and> v \<in> set vs \<and> d = l2 (dim enc1) (embed enc1 []) v)) \<and>
        0 \<le> d \<and> 1 = score_of (arith enc1) d"
    by (simp only: snd_conv) blast
  have z: "(0::real) \<le> 1" by simp
  note o = conjunct2 [OF conjunct2 [OF t]]
  from mp [OF conjunct1 [OF conjunct2 [OF t]] z]
  have b: "0 \<le> score_of Binary64 1" "score_of Binary64 1 \<le> 1"
    by blast+
  have n: "\<not> (1::real) \<le> 1 / 2 ^ prec Binary64" by simp
  from mem a z score_of_one [of Binary64] b n o show ?thesis
    by blast
qed

text \<open>
  Two vectors that differ by \<open>2\<close> to the power \<open>- 35\<close> in their one component: the
  distance is not 0 and the score of the result is 1, in single and in double
  precision.
\<close>

theorem score_one_counterexample:
  "l2 (dim enc1) (embed enc1 []) (embed enc1 (str ''a'')) = 1 / 2 ^ 70 \<and>
   (1 / 2 ^ 70 :: real) \<noteq> 0 \<and>
   search enc1 (apply_op enc1 new_search (Add [str ''a''] None)) [] 1 = [(str ''a'', [], 1)] \<and>
   score_of Binary32 (1 / 2 ^ 70) = 1 \<and> score_of Binary64 (1 / 2 ^ 70) = 1"
proof -
  have n: "(1 / 2 ^ 70 :: real) \<noteq> 0" by simp
  from near_distance n near_search near_score show ?thesis by blast
qed

lemma apply_op_aligned:
  assumes "aligned s" "aligned_op op"
  shows "aligned (apply_op enc s op)"
proof (cases op)
  case Clear
  then show ?thesis by (simp add: aligned_def clear_def index_size_def)
next
  case (Add ts md)
  with assms show ?thesis
    by (cases md)
      (auto simp: aligned_def add_texts_def index_size_def Let_def split: option.splits)
qed

lemma apply_op_supplied:
  assumes "aligned s" "aligned_op op"
  shows "zip (texts (apply_op enc s op)) (metadata (apply_op enc s op))
       = supplied enc (zip (texts s) (metadata s)) op"
proof (cases op)
  case Clear
  then show ?thesis by (simp add: clear_def)
next
  case (Add ts md)
  with assms show ?thesis
    by (cases md) (auto simp: aligned_def add_texts_def Let_def)
qed

lemma run_aligned:
  "aligned s \<Longrightarrow> list_all aligned_op ops \<Longrightarrow>
     aligned (foldl (apply_op enc) s ops) \<and>
     zip (texts (foldl (apply_op enc) s ops)) (metadata (foldl (apply_op enc) s ops))
       = foldl (supplied enc) (zip (texts s) (metadata s)) ops"
proof (induction ops arbitrary: s)
  case Nil
  then show ?case by simp
next
  case (Cons op ops)
  then have a: "aligned (apply_op enc s op)" and r: "list_all aligned_op ops"
    by (simp_all add: apply_op_aligned)
  from Cons.IH [OF a r] show ?case
    using Cons.prems by (simp add: apply_op_supplied)
qed

lemma py_index_zip:
  assumes "length xs = length ys" "py_index xs i = Some x" "py_index ys i = Some y"
  shows "(x, y) \<in> set (zip xs ys)"
proof -
  define j where "j = nat (if i < 0 then int (length xs) + i else i)"
  have "j < length xs" "x = xs ! j" "y = ys ! j"
    using assms by (auto simp: py_index_def j_def Let_def split: if_splits)
  then show ?thesis
    using assms(1) by (auto simp: set_zip)
qed

lemma format_results_pairs:
  assumes "length (texts s) = length (metadata s)"
    and "format_results f s found = Some rs" and "(t, m, sc) \<in> set rs"
  shows "(t, m) \<in> set (zip (texts s) (metadata s))"
  using assms
proof (induction found arbitrary: rs)
  case Nil
  then show ?case by simp
next
  case (Cons p found)
  obtain d i where p: "p = (d, i)" by (cases p)
  show ?case
  proof (cases "i < int (length (texts s))")
    case False
    with Cons p show ?thesis by simp
  next
    case True
    with Cons.prems p obtain t0 m0 rs0 where
      a: "py_index (texts s) i = Some t0" and b: "py_index (metadata s) i = Some m0"
      and c: "format_results f s found = Some rs0" and rs: "rs = (t0, m0, score_of f d) # rs0"
      by (auto split: option.splits)
    from Cons.prems(3) rs consider "(t, m) = (t0, m0)" | "(t, m, sc) \<in> set rs0"
      by auto
    then show ?thesis
    proof cases
      case 1
      then show ?thesis using py_index_zip [OF Cons.prems(1) a b] by simp
    next
      case 2
      then show ?thesis using Cons.IH [OF Cons.prems(1) c] by simp
    qed
  qed
qed

lemma search_pairs:
  assumes len: "length (texts s) = length (metadata s)"
    and r: "(t, m, sc) \<in> set (search enc s q k)"
  shows "(t, m) \<in> set (zip (texts s) (metadata s))"
proof -
  from r have "\<exists>found rs. format_results (arith enc) s found = Some rs \<and> (t, m, sc) \<in> set rs"
    by (auto simp: search_def split: if_splits option.splits) metis
  then show ?thesis
    using format_results_pairs [OF len] by blast
qed

lemma misaligned_add:
  assumes "aligned s" "m \<noteq> []" "length m \<noteq> length ts" "add_texts enc s ts (Some m) = Inr s'"
  shows "length (texts s') \<noteq> length (metadata s')"
  using assms by (auto simp: aligned_def add_texts_def Let_def split: if_splits)

text \<open>
  C10. Over every sequence of \<open>clear\<close> and \<open>add_texts\<close> operations on a new index
  in which each \<open>add_texts\<close> passes metadata that is absent, empty or as long as its
  texts, the index keeps \<open>len(texts) = len(metadata) =\<close> index size, the texts and
  metadata pair up as they were supplied, and every search result is such a pair. An
  \<open>add_texts\<close> with a non-empty metadata list of another length breaks the alignment.
\<close>

theorem index_alignment:
  "(list_all aligned_op ops \<longrightarrow>
      aligned (foldl (apply_op enc) new_search ops) \<and>
      zip (texts (foldl (apply_op enc) new_search ops))
          (metadata (foldl (apply_op enc) new_search ops)) = foldl (supplied enc) [] ops \<and>
      (\<forall>r \<in> set (search enc (foldl (apply_op enc) new_search ops) q k).
          (fst r, fst (snd r)) \<in> set (foldl (supplied enc) [] ops))) \<and>
   (aligned s \<and> m \<noteq> [] \<and> length m \<noteq> length ts \<and> add_texts enc s ts (Some m) = Inr s' \<longrightarrow>
      length (texts s') \<noteq> length (metadata s') \<and> \<not> aligned s')"
proof (intro conjI impI)
  assume ops: "list_all aligned_op ops"
  have a0: "aligned new_search"
    by (simp add: aligned_def new_search_def index_size_def)
  from run_aligned [OF a0 ops, of enc]
  show al: "aligned (foldl (apply_op enc) new_search ops)"
    and z: "zip (texts (foldl (apply_op enc) new_search ops))
          (metadata (foldl (apply_op enc) new_search ops)) = foldl (supplied enc) [] ops"
    by (simp_all add: new_search_def)
  show "\<forall>r \<in> set (search enc (foldl (apply_op enc) new_search ops) q k).
          (fst r, fst (snd r)) \<in> set (foldl (supplied enc) [] ops)"
  proof
    fix r assume r: "r \<in> set (search enc (foldl (apply_op enc) new_search ops) q k)"
    obtain t m' sc where "r = (t, m', sc)" by (cases r)
    with r al show "(fst r, fst (snd r)) \<in> set (foldl (supplied enc) [] ops)"
      using search_pairs [of "foldl (apply_op enc) new_search ops" t m' sc enc q k]
      by (simp add: aligned_def z)
  qed
next
  assume "aligned s \<and> m \<noteq> [] \<and> length m \<noteq> length ts \<and> add_texts enc s ts (Some m) = Inr s'"
  then show "length (texts s') \<noteq> length (metadata s')"
    using misaligned_add by blast
  then show "\<not> aligned s'" by (simp add: aligned_def)
qed

theorem index_alignment_witness:
  "list_all aligned_op [Add [str ''a'', str ''b''] (Some [[(str ''k'', str ''v'')], []]), Clear,
      Add [str ''c''] None] \<and>
   aligned (foldl (apply_op enc0) new_search
     [Add [str ''a'', str ''b''] (Some [[(str ''k'', str ''v'')], []]), Clear, Add [str ''c''] None]) \<and>
   foldl (supplied enc0) []
     [Add [str ''a'', str ''b''] (Some [[(str ''k'', str ''v'')], []]), Clear, Add [str ''c''] None]
     = [(str ''c'', [])] \<and>
   aligned new_search \<and>
   add_texts enc0 new_search [str ''a'', str ''b''] (Some [[(str ''k'', str ''v'')]])
     = Inr \<lparr>index = Some (map (embed enc0) [str ''a'', str ''b'']),
            texts = [str ''a'', str ''b''], metadata = [[(str ''k'', str ''v'')]]\<rparr> \<and>
   \<not> aligned \<lparr>index = Some (map (embed enc0) [str ''a'', str ''b'']),
            texts = [str ''a'', str ''b''], metadata = [[(str ''k'', str ''v'')]]\<rparr>"
proof -
  let ?ops = "[Add [str ''a'', str ''b''] (Some [[(str ''k'', str ''v'')], []]), Clear,
      Add [str ''c''] None]"
  let ?s' = "\<lparr>index = Some (map (embed enc0) [str ''a'', str ''b'']),
            texts = [str ''a'', str ''b''], metadata = [[(str ''k'', str ''v'')]]\<rparr>"
  have ops: "list_all aligned_op ?ops" by simp
  have sup: "foldl (supplied enc0) [] ?ops = [(str ''c'', [])]"
    by (simp add: enc0_def)
  have a0: "aligned new_search"
    by (simp add: aligned_def new_search_def index_size_def)
  have add: "add_texts enc0 new_search [str ''a'', str ''b''] (Some [[(str ''k'', str ''v'')]]) = Inr ?s'"
    by (simp add: add_texts_def new_search_def enc0_def)
  have m: "[[(str ''k'', str ''v'')]] \<noteq> []"
    "length [[(str ''k'', str ''v'')]] \<noteq> length [str ''a'', str ''b'']"
    by simp_all
  from index_alignment [of ?ops enc0 "str ''c''" 5 new_search "[[(str ''k'', str ''v'')]]"
      "[str ''a'', str ''b'']" ?s']
  show ?thesis
    using ops sup a0 add m by simp
qed

section \<open>The session\<close>

lemma inv_get: "session_inv s \<Longrightarrow> get_user_state s = s"
  by (simp add: get_user_state_def session_inv_def)

lemma inv_reset: "session_inv s \<Longrightarrow> session_inv (reset_state s)"
  by (simp add: session_inv_def reset_state_def flag_def)

lemma inv_save:
  "session_inv s \<Longrightarrow> session_inv (fst (save_update w s))"
  by (simp add: save_update_def Let_def inv_reset)

lemma inv_update_flow:
  assumes "session_inv s"
  shows "session_inv (fst (handle_update_flow w script s upd))"
proof -
  have g: "get_user_state s = s" using assms by (rule inv_get)
  have m: "session_inv (fst (save_update w (s\<lparr>update_modulo := v\<rparr>)))" for v
    by (rule inv_save) (use assms in \<open>simp add: session_inv_def\<close>)
  have r: "session_inv (reset_state s)" using assms by (rule inv_reset)
  have st: "session_inv (s\<lparr>update_step := Some x\<rparr>)" if "flag (updating_course s)" for x
    using assms that by (simp add: session_inv_def)
  show ?thesis
  proof (cases "flag (updating_course s)")
    case False
    then show ?thesis using assms by (simp add: handle_update_flow_def g)
  next
    case up: True
    show ?thesis
    proof (cases "is_menu (uni w) (msg_text upd)")
      case True
      then show ?thesis using up r by (simp add: handle_update_flow_def g)
    next
      case nm: False
      show ?thesis
      proof (cases "update_step s")
        case None
        then show ?thesis using up nm assms by (simp add: handle_update_flow_def g)
      next
        case (Some x)
        have fr: "session_inv s'" if "can_return_to_menu s' = can_return_to_menu s"
          "messages s' = messages s" "updating_course s' = updating_course s"
          "update_step s' \<noteq> None" for s'
          using assms that up by (simp add: session_inv_def)
        show ?thesis
          using up nm Some assms m
          by (cases x; cases "msg_text upd")
            (simp_all add: handle_update_flow_def g Let_def fr)
      qed
    qed
  qed
qed

lemma query_flow_messages: "messages (fst (query_flow w script s upd)) = messages s"
  unfolding query_flow_def Let_def
  by (simp add: if_distrib [where f = fst] if_distrib [where f = messages]
      option.case_distrib [where h = fst] option.case_distrib [where h = messages]
      split del: if_split cong: if_cong option.case_cong)
    (simp split: option.splits)

lemma query_flow_menu: "can_return_to_menu (fst (query_flow w script s upd)) = can_return_to_menu s"
  unfolding query_flow_def Let_def
  by (simp add: if_distrib [where f = fst] if_distrib [where f = can_return_to_menu]
      option.case_distrib [where h = fst] option.case_distrib [where h = can_return_to_menu]
      split del: if_split cong: if_cong option.case_cong)
    (simp split: option.splits)

lemma query_flow_updating: "updating_course (fst (query_flow w script s upd)) = updating_course s"
  unfolding query_flow_def Let_def
  by (simp add: if_distrib [where f = fst] if_distrib [where f = updating_course]
      option.case_distrib [where h = fst] option.case_distrib [where h = updating_course]
      split del: if_split cong: if_cong option.case_cong)
    (simp split: option.splits)

lemma query_flow_step: "update_step (fst (query_flow w script s upd)) = update_step s"
  unfolding query_flow_def Let_def
  by (simp add: if_distrib [where f = fst] if_distrib [where f = update_step]
      option.case_distrib [where h = fst] option.case_distrib [where h = update_step]
      split del: if_split cong: if_cong option.case_cong)
    (simp split: option.splits)

lemma inv_query_flow:
  assumes "session_inv s"
  shows "session_inv (fst (query_flow w script s upd))"
  using assms
  by (simp add: session_inv_def query_flow_messages query_flow_menu query_flow_updating
      query_flow_step)

lemma inv_handle_message:
  assumes "session_inv s"
  shows "session_inv (fst (handle_message w s upd))"
proof -
  have g: "get_user_state s = s" using assms by (rule inv_get)
  show ?thesis
    unfolding handle_message_def g Let_def
    using assms inv_reset [OF assms] inv_update_flow [OF assms] inv_query_flow [OF assms]
    by (simp split del: if_split add: if_distrib [where f = fst] if_distrib [where f = session_inv]
        cong: if_cong)
qed

lemma inv_turn:
  assumes "session_inv s"
  shows "session_inv (turn_state w s t)"
proof (cases t)
  case (Message upd)
  then show ?thesis using inv_handle_message [OF assms] by simp
next
  case Start
  then show ?thesis
    using assms by (simp add: start_def inv_get Let_def session_inv_def)
next
  case Update_command
  then show ?thesis
    using assms by (simp add: update_course_command_def inv_get Let_def session_inv_def flag_def)
next
  case (Language_button d)
  then show ?thesis
    using assms by (simp add: language_callback_def inv_get Let_def session_inv_def)
qed

lemma reachable_inv: "reachable s \<Longrightarrow> session_inv s"
proof (induction rule: reachable.induct)
  case initial
  show ?case by (simp add: session_inv_def create_initial_state_def flag_def)
next
  case (turn s w t)
  then show ?case by (simp add: inv_turn)
qed

lemma run_reachable: "reachable s \<Longrightarrow> reachable (run s ts)"
proof (induction ts arbitrary: s)
  case Nil
  then show ?case by simp
next
  case (Cons p ts)
  obtain w t where p: "p = (w, t)" by (cases p)
  show ?case using Cons by (simp add: p reachable.turn)
qed

lemma is_menu_menu: "is_menu u (Some (str ''menu''))"
  by (simp add: is_menu_def py_lower_def str_def ascii_lower_def upt_rec)

lemma handle_message_menu:
  assumes "session_inv s" "is_menu (uni w) (msg_text upd)"
  shows "fst (handle_message w s upd) = reset_state s"
  using assms inv_get [OF assms(1)]
  by (simp add: handle_message_def session_inv_def)

lemma handle_message_menu_enabled:
  assumes "can_return_to_menu s" "length (messages s) \<le> 50" "is_menu (uni w) (msg_text upd)"
  shows "fst (handle_message w s upd) = reset_state s"
  using assms by (simp add: handle_message_def get_user_state_def)

lemma awaiting_course_reset: "awaiting_course (reset_state s) = (\<not> waiting_for_language s)"
  by (simp add: awaiting_course_def reset_state_def flag_def)

lemma awaiting_course_matches:
  assumes a: "awaiting_course s" and t: "truthy (msg_text upd)"
    and m: "\<not> is_menu (uni w) (msg_text upd)"
    and ok: "fst (detect_inappropriate_content (next_reply (llm w)))"
  shows "snd (handle_message w s upd) ! 1 = Invoke Course_match (msg_text upd) (next_reply (tl (llm w)))"
proof -
  let ?g = "get_user_state s"
  have f: "\<not> flag (updating_course ?g)" "\<not> waiting_for_language ?g" "flag (waiting_for_course ?g)"
    using a by (simp_all add: awaiting_course_def get_user_state_def)
  have "snd (query_flow w (tl (llm w)) ?g upd) ! 0
      = Invoke Course_match (msg_text upd) (next_reply (tl (llm w)))"
    using f t by (simp add: query_flow_def Let_def)
  then show ?thesis
    using f(1) t m ok by (simp add: handle_message_def Let_def)
qed

text \<open>
  C2, as the code has it. The reset clears the course, section, cycle and module,
  the other query-flow flags and every update-flow field, sets \<open>waiting_for_course\<close> and keeps the
  language, the history and \<open>waiting_for_language\<close>, whatever the state. So the
  session awaits the course after the reset exactly when it was not waiting for the
  language; it then matches the next message with text against the courses. A
  message that is the reset keyword ("menu" is one) resets the session in every state
  that the session reaches, and in every state in which the menu is enabled and the
  history has at most 50 messages.
\<close>

theorem reset_keyword:
  "is_menu (uni w) (Some (str ''menu'')) \<and>
   (let s' = reset_state s in
      waiting_for_course s' = Some True \<and> waiting_for_section s' = None \<and>
      waiting_for_ciclo s' = None \<and> waiting_for_modulo s' = None \<and>
      course s' = None \<and> sect s' = None \<and> ciclo s' = None \<and> modulo s' = None \<and>
      update_course s' = None \<and> update_content s' = None \<and> update_category s' = None \<and>
      update_ciclo s' = None \<and> update_modulo s' = None \<and> update_step s' = None \<and>
      updating_course s' = None \<and>
      language s' = language s \<and> messages s' = messages s \<and>
      waiting_for_language s' = waiting_for_language s) \<and>
   awaiting_course (reset_state s) = (\<not> waiting_for_language s) \<and>
   ((reachable s \<or> can_return_to_menu s \<and> length (messages s) \<le> 50) \<and>
    is_menu (uni w) (msg_text upd) \<longrightarrow>
      fst (handle_message w s upd) = reset_state s) \<and>
   (awaiting_course s \<and> truthy (msg_text upd) \<and> \<not> is_menu (uni w) (msg_text upd) \<and>
    fst (detect_inappropriate_content (next_reply (llm w))) \<longrightarrow>
      snd (handle_message w s upd) ! 1
        = Invoke Course_match (msg_text upd) (next_reply (tl (llm w))))"
proof (intro conjI impI)
  show "is_menu (uni w) (Some (str ''menu''))" by (rule is_menu_menu)
next
  show "let s' = reset_state s in
      waiting_for_course s' = Some True \<and> waiting_for_section s' = None \<and>
      waiting_for_ciclo s' = None \<and> waiting_for_modulo s' = None \<and>
      course s' = None \<and> sect s' = None \<and> ciclo s' = None \<and> modulo s' = None \<and>
      update_course s' = None \<and> update_content s' = None \<and> update_category s' = None \<and>
      update_ciclo s' = None \<and> update_modulo s' = None \<and> update_step s' = None \<and>
      updating_course s' = None \<and>
      language s' = language s \<and> messages s' = messages s \<and>
      waiting_for_language s' = waiting_for_language s"
    by (simp add: Let_def reset_state_def)
next
  show "awaiting_course (reset_state s) = (\<not> waiting_for_language s)"
    by (rule awaiting_course_reset)
next
  assume a: "(reachable s \<or> can_return_to_menu s \<and> length (messages s) \<le> 50) \<and>
    is_menu (uni w) (msg_text upd)"
  then have "can_return_to_menu s \<and> length (messages s) \<le> 50"
    using reachable_inv [of s] by (auto simp: session_inv_def)
  with a show "fst (handle_message w s upd) = reset_state s"
    by (simp add: handle_message_menu_enabled)
next
  assume "awaiting_course s \<and> truthy (msg_text upd) \<and> \<not> is_menu (uni w) (msg_text upd) \<and>
    fst (detect_inappropriate_content (next_reply (llm w)))"
  then show "snd (handle_message w s upd) ! 1
        = Invoke Course_match (msg_text upd) (next_reply (tl (llm w)))"
    by (intro awaiting_course_matches) simp_all
qed

lemmas turn_defs0 =
  handle_message_def query_flow_def update_course_command_def
  create_initial_state_def get_user_state_def says_def world0_def uni0_def is_menu_def
  py_lower_def ascii_lower_def str_def detect_inappropriate_content_def next_reply_def
  py_strip_def py_isspace_def truthy_def flag_def Let_def upt_rec

theorem reset_keyword_witness:
  "reachable (run create_initial_state
      [(world0 [approved], Message (says ''es'')), (world0 [], Update_command)]) \<and>
   is_menu (uni (world0 [])) (msg_text (says ''menu'')) \<and>
   fst (handle_message (world0 []) (run create_initial_state
      [(world0 [approved], Message (says ''es'')), (world0 [], Update_command)]) (says ''menu''))
     = reset_state (run create_initial_state
      [(world0 [approved], Message (says ''es'')), (world0 [], Update_command)]) \<and>
   updating_course (reset_state (run create_initial_state
      [(world0 [approved], Message (says ''es'')), (world0 [], Update_command)])) = None \<and>
   language (reset_state (run create_initial_state
      [(world0 [approved], Message (says ''es'')), (world0 [], Update_command)]))
     = Some (str ''es'') \<and>
   awaiting_course (reset_state (run create_initial_state
      [(world0 [approved], Message (says ''es'')), (world0 [], Update_command)])) \<and>
   truthy (msg_text (says ''algoritmos'')) \<and>
   \<not> is_menu (uni (world0 [approved, Content (str ''Algoritmos'')])) (msg_text (says ''algoritmos'')) \<and>
   fst (detect_inappropriate_content
          (next_reply (llm (world0 [approved, Content (str ''Algoritmos'')])))) \<and>
   snd (handle_message (world0 [approved, Content (str ''Algoritmos'')])
          (reset_state (run create_initial_state
             [(world0 [approved], Message (says ''es'')), (world0 [], Update_command)]))
          (says ''algoritmos'')) ! 1
     = Invoke Course_match (Some (str ''algoritmos'')) (Content (str ''Algoritmos''))"
proof -
  let ?s = "run create_initial_state
      [(world0 [approved], Message (says ''es'')), (world0 [], Update_command)]"
  let ?w = "world0 [approved, Content (str ''Algoritmos'')]"
  have r: "reachable ?s"
    by (rule run_reachable) (rule reachable.initial)
  have m: "is_menu (uni (world0 [])) (msg_text (says ''menu''))"
    by (simp add: says_def is_menu_menu)
  have l: "language ?s = Some (str ''es'')" "\<not> waiting_for_language ?s"
    by (simp_all add: turn_defs0 approved_def)
  note t = reset_keyword [of "world0 []" ?s "says ''menu''"]
  note t' = reset_keyword [of ?w "reset_state ?s" "says ''algoritmos''"]
  from t r m have e: "fst (handle_message (world0 []) ?s (says ''menu'')) = reset_state ?s"
    by blast
  from t have u: "updating_course (reset_state ?s) = None"
    and "language (reset_state ?s) = language ?s"
    and "awaiting_course (reset_state ?s) = (\<not> waiting_for_language ?s)"
    unfolding Let_def by blast+
  with l have g: "language (reset_state ?s) = Some (str ''es'')"
    and a: "awaiting_course (reset_state ?s)"
    by simp_all
  have h: "truthy (msg_text (says ''algoritmos''))"
    "\<not> is_menu (uni ?w) (msg_text (says ''algoritmos''))"
    "fst (detect_inappropriate_content (next_reply (llm ?w)))"
    by (simp_all add: says_def truthy_def str_def is_menu_def py_lower_def ascii_lower_def
        world0_def uni0_def upt_rec next_reply_def approved_def
        detect_inappropriate_content_def py_strip_def py_isspace_def)
  from t' a h have "snd (handle_message ?w (reset_state ?s) (says ''algoritmos'')) ! 1
      = Invoke Course_match (msg_text (says ''algoritmos'')) (next_reply (tl (llm ?w)))"
    by blast
  then have c: "snd (handle_message ?w (reset_state ?s) (says ''algoritmos'')) ! 1
      = Invoke Course_match (Some (str ''algoritmos'')) (Content (str ''Algoritmos''))"
    by (simp add: says_def world0_def next_reply_def)
  from r m e u g a h c show ?thesis
    by blast
qed

text \<open>
  The reset keyword before the language is chosen: the session is still waiting for
  the language, and answers the next message as a choice of language.
\<close>

theorem reset_before_language_counterexample:
  "reachable create_initial_state \<and>
   fst (handle_message (world0 []) create_initial_state (says ''menu''))
     = reset_state create_initial_state \<and>
   waiting_for_language (reset_state create_initial_state) \<and>
   \<not> awaiting_course (reset_state create_initial_state) \<and>
   modes_set (reset_state create_initial_state) = 2 \<and>
   handle_message (world0 [approved]) (reset_state create_initial_state) (says ''algoritmos'')
     = (reset_state create_initial_state,
        [Invoke Moderation (Some (str ''algoritmos'')) approved,
         Reply (str ''Por favor, selecciona un idioma v'' @ [225] @ str ''lido (1/2)'')])"
proof -
  have a: "fst (handle_message (world0 []) create_initial_state (says ''menu''))
      = reset_state create_initial_state"
    by (rule handle_message_menu_enabled)
      (simp_all add: create_initial_state_def says_def is_menu_menu)
  have b: "waiting_for_language (reset_state create_initial_state)"
    "\<not> awaiting_course (reset_state create_initial_state)"
    "modes_set (reset_state create_initial_state) = 2"
    by (simp_all add: reset_state_def create_initial_state_def awaiting_course_def
        modes_set_def flag_def)
  have c: "handle_message (world0 [approved]) (reset_state create_initial_state)
      (says ''algoritmos'')
     = (reset_state create_initial_state,
        [Invoke Moderation (Some (str ''algoritmos'')) approved,
         Reply (str ''Por favor, selecciona un idioma v'' @ [225] @ str ''lido (1/2)'')])"
    by (simp add: handle_message_def query_flow_def reset_state_def create_initial_state_def
        get_user_state_def says_def world0_def uni0_def is_menu_def py_lower_def
        ascii_lower_def str_def detect_inappropriate_content_def next_reply_def approved_def
        py_strip_def py_isspace_def truthy_def flag_def Let_def upt_rec)
  from reachable.initial a b c show ?thesis
    by blast
qed

lemma flag_simps: "flag (Some True)" "\<not> flag (Some False)" "\<not> flag None"
  by (simp_all add: flag_def)

lemma qf_course:
  assumes "\<not> waiting_for_language s" "flag (waiting_for_course s)"
    "\<not> flag (waiting_for_section s)" "\<not> flag (waiting_for_ciclo s)"
    "\<not> flag (waiting_for_modulo s)"
  shows "fst (query_flow w script s upd) =
     (if truthy (msg_text upd) \<and> identify_course (next_reply script) \<noteq> str ''NO_MATCH''
      then s\<lparr>course := Some (identify_course (next_reply script)),
             waiting_for_course := Some False, waiting_for_section := Some True\<rparr>
      else s)"
proof (cases "truthy (msg_text upd)")
  case True
  with assms show ?thesis by (simp add: query_flow_def Let_def)
next
  case False
  with assms show ?thesis
    by (cases "msg_text upd"; cases "course s") (simp_all add: query_flow_def Let_def truthy_def)
qed

lemma qf_section:
  assumes "\<not> waiting_for_language s" "\<not> flag (waiting_for_course s)"
    "flag (waiting_for_section s)"
  shows "fst (query_flow w script s upd) =
     (case msg_text upd of
        None \<Rightarrow> s
      | Some m \<Rightarrow> if m \<noteq> [] \<and> py_strip m \<noteq> []
          then s\<lparr>sect := Some (py_strip m), waiting_for_section := Some False,
                 waiting_for_ciclo := Some True\<rparr>
          else s)"
  using assms by (cases "msg_text upd") (simp_all add: query_flow_def Let_def)

lemma qf_ciclo:
  assumes "\<not> waiting_for_language s" "\<not> flag (waiting_for_course s)"
    "\<not> flag (waiting_for_section s)" "flag (waiting_for_ciclo s)"
  shows "fst (query_flow w script s upd) =
     (case msg_text upd of
        None \<Rightarrow> s
      | Some m \<Rightarrow> if m \<noteq> [] \<and> validate_ciclo (uni w) m
          then s\<lparr>ciclo := Some m, waiting_for_ciclo := Some False,
                 waiting_for_modulo := Some True\<rparr>
          else s)"
  using assms by (cases "msg_text upd") (simp_all add: query_flow_def Let_def)

lemma qf_modulo:
  assumes "\<not> waiting_for_language s" "\<not> flag (waiting_for_course s)"
    "\<not> flag (waiting_for_section s)" "\<not> flag (waiting_for_ciclo s)"
    "flag (waiting_for_modulo s)"
  shows "fst (query_flow w script s upd) =
     (if truthy (msg_text upd) \<and> identify_module (next_reply script) \<noteq> str ''NO_MATCH''
      then s\<lparr>modulo := Some (identify_module (next_reply script)),
             waiting_for_modulo := Some False\<rparr>
      else s)"
  using assms by (simp add: query_flow_def Let_def)

lemma qf_ready:
  assumes "\<not> waiting_for_language s" "\<not> flag (waiting_for_course s)"
    "\<not> flag (waiting_for_section s)" "\<not> flag (waiting_for_ciclo s)"
    "\<not> flag (waiting_for_modulo s)"
  shows "fst (query_flow w script s upd) = s"
  using assms
  by (cases "msg_text upd"; cases "course s") (simp_all add: query_flow_def Let_def)

lemma one_mode_cases:
  assumes "one_mode s"
  obtains (c) "flag (waiting_for_course s)" "\<not> flag (waiting_for_section s)"
      "\<not> flag (waiting_for_ciclo s)" "\<not> flag (waiting_for_modulo s)"
    | (s) "\<not> flag (waiting_for_course s)" "flag (waiting_for_section s)"
      "\<not> flag (waiting_for_ciclo s)" "\<not> flag (waiting_for_modulo s)"
    | (i) "\<not> flag (waiting_for_course s)" "\<not> flag (waiting_for_section s)"
      "flag (waiting_for_ciclo s)" "\<not> flag (waiting_for_modulo s)"
    | (m) "\<not> flag (waiting_for_course s)" "\<not> flag (waiting_for_section s)"
      "\<not> flag (waiting_for_ciclo s)" "flag (waiting_for_modulo s)"
    | (n) "\<not> flag (waiting_for_course s)" "\<not> flag (waiting_for_section s)"
      "\<not> flag (waiting_for_ciclo s)" "\<not> flag (waiting_for_modulo s)"
  using assms by (auto simp: one_mode_def modes_set_def split: if_splits)

lemma one_mode_query_flow:
  assumes "one_mode s"
  shows "one_mode (fst (query_flow w script s upd))"
proof -
  from assms have l: "\<not> waiting_for_language s" and u: "\<not> flag (updating_course s)"
    by (simp_all add: one_mode_def)
  from assms show ?thesis
  proof (cases rule: one_mode_cases)
    case c
    show ?thesis
      unfolding qf_course [OF l c] using l u c
      by (simp add: one_mode_def modes_set_def flag_simps)
  next
    case s
    show ?thesis
      unfolding qf_section [OF l s(1,2)] using l u s
      by (simp add: one_mode_def modes_set_def flag_simps split: option.splits)
  next
    case i
    show ?thesis
      unfolding qf_ciclo [OF l i(1,2,3)] using l u i
      by (simp add: one_mode_def modes_set_def flag_simps split: option.splits)
  next
    case m
    show ?thesis
      unfolding qf_modulo [OF l m] using l u m
      by (simp add: one_mode_def modes_set_def flag_simps)
  next
    case n
    show ?thesis
      unfolding qf_ready [OF l n] using assms .
  qed
qed

lemma one_mode_get: "one_mode (get_user_state s) = one_mode s"
  by (simp add: one_mode_def get_user_state_def modes_set_def)

lemma one_mode_reset: "\<not> waiting_for_language s \<Longrightarrow> one_mode (reset_state s)"
  by (simp add: one_mode_def reset_state_def modes_set_def flag_simps)

lemma one_mode_handle_message:
  assumes "one_mode s"
  shows "one_mode (fst (handle_message w s upd))"
proof -
  let ?g = "get_user_state s"
  have g: "one_mode ?g" using assms by (simp add: one_mode_get)
  then have l: "\<not> waiting_for_language ?g" and u: "\<not> flag (updating_course ?g)"
    by (simp_all add: one_mode_def)
  show ?thesis
    unfolding handle_message_def Let_def
    using g u one_mode_reset [OF l] one_mode_query_flow [OF g]
    by (simp split del: if_split add: if_distrib [where f = fst] if_distrib [where f = one_mode]
        cong: if_cong)
qed

lemma one_mode_language:
  "one_mode (fst (language_callback w create_initial_state d))"
  by (simp add: language_callback_def create_initial_state_def get_user_state_def one_mode_def
      modes_set_def flag_simps Let_def)

lemma one_mode_run:
  "one_mode s \<Longrightarrow> list_all is_message (map snd ts) \<Longrightarrow> one_mode (run s ts)"
proof (induction ts arbitrary: s)
  case Nil
  then show ?case by simp
next
  case (Cons p ts)
  obtain w t where p: "p = (w, t)" by (cases p)
  with Cons.prems obtain upd where t: "t = Message upd"
    by (cases t) simp_all
  have "one_mode (turn_state w s t)"
    using Cons.prems(1) by (simp add: t one_mode_handle_message)
  with Cons show ?case by (simp add: p)
qed

text \<open>
  C3, as the code has it. In every state that the session reaches, \<open>update_step\<close>
  has a value exactly when \<open>updating_course\<close> is set. At most one mode flag is set
  in the states that message turns reach from a session in the query flow with its
  language chosen and at most one flag set. The flags are not exclusive in general:
  \<open>/update\<close> in the initial state leaves \<open>waiting_for_language\<close> and
  \<open>updating_course\<close> both set.
\<close>

theorem update_step_iff_update_flow:
  "(reachable s \<longrightarrow> (update_step s \<noteq> None) = flag (updating_course s)) \<and>
   (one_mode s' \<and> list_all is_message (map snd ts) \<longrightarrow>
      one_mode (run s' ts) \<and> modes_set (run s' ts) \<le> 1)"
  using reachable_inv [of s] one_mode_run [of s' ts]
  by (auto simp: session_inv_def one_mode_def)

theorem update_step_iff_update_flow_witness:
  "reachable (turn_state (world0 []) create_initial_state Update_command) \<and>
   (update_step (turn_state (world0 []) create_initial_state Update_command) \<noteq> None)
     = flag (updating_course (turn_state (world0 []) create_initial_state Update_command)) \<and>
   update_step (turn_state (world0 []) create_initial_state Update_command)
     = Some course_selection \<and>
   one_mode (turn_state (world0 []) create_initial_state (Language_button (str ''es''))) \<and>
   list_all is_message
     (map snd [(world0 [Content (str ''APPROPRIATE''), Content (str ''Algoritmos'')],
                Message (says ''algoritmos''))]) \<and>
   modes_set (run (turn_state (world0 []) create_initial_state (Language_button (str ''es'')))
     [(world0 [Content (str ''APPROPRIATE''), Content (str ''Algoritmos'')],
       Message (says ''algoritmos''))]) \<le> 1"
proof -
  let ?s = "turn_state (world0 []) create_initial_state Update_command"
  let ?s' = "turn_state (world0 []) create_initial_state (Language_button (str ''es''))"
  let ?ts = "[(world0 [Content (str ''APPROPRIATE''), Content (str ''Algoritmos'')],
       Message (says ''algoritmos''))]"
  have r: "reachable ?s"
    by (rule reachable.turn) (rule reachable.initial)
  have st: "update_step ?s = Some course_selection"
    by (simp add: update_course_command_def create_initial_state_def get_user_state_def Let_def)
  have o: "one_mode ?s'"
    using one_mode_language [of "world0 []" "str ''es''"] by simp
  have m: "list_all is_message (map snd ?ts)" by simp
  note t = update_step_iff_update_flow [of ?s ?s' ?ts]
  from t r o m have "(update_step ?s \<noteq> None) = flag (updating_course ?s)"
    and "modes_set (run ?s' ?ts) \<le> 1"
    by blast+
  with r st o m show ?thesis by blast
qed

theorem two_modes_counterexample:
  "reachable (turn_state (world0 []) create_initial_state Update_command) \<and>
   waiting_for_language (turn_state (world0 []) create_initial_state Update_command) \<and>
   flag (updating_course (turn_state (world0 []) create_initial_state Update_command)) \<and>
   modes_set (turn_state (world0 []) create_initial_state Update_command) = 2"
proof -
  have r: "reachable (turn_state (world0 []) create_initial_state Update_command)"
    by (rule reachable.turn) (rule reachable.initial)
  then show ?thesis
    by (simp add: update_course_command_def create_initial_state_def get_user_state_def
        modes_set_def flag_def Let_def)
qed

section \<open>Moderation in the update flow\<close>

lemma get_user_state_idem: "get_user_state (get_user_state s) = get_user_state s"
  by (simp add: get_user_state_def)

lemma get_user_state_fields [simp]:
  "updating_course (get_user_state s) = updating_course s"
  "update_step (get_user_state s) = update_step s"
  "update_content (get_user_state s) = update_content s"
  "update_category (get_user_state s) = update_category s"
  "language (get_user_state s) = language s"
  "can_return_to_menu (get_user_state s) = can_return_to_menu s"
  by (simp_all add: get_user_state_def)

text \<open>The update flow in the content step, case by case.\<close>

lemma content_step:
  assumes "flag (updating_course s)" "update_step s = Some content_input"
    "get_user_state s = s"
  shows "list_ex rejection (snd (handle_update_flow w script s upd)) \<longrightarrow>
           fst (handle_update_flow w script s upd) = s \<and>
           \<not> list_ex (invokes Category_suggestion) (snd (handle_update_flow w script s upd))"
  using assms
  by (cases "msg_text upd")
    (simp_all add: handle_update_flow_def Let_def reset_state_def)

text \<open>
  C7, as the code has it. For every session in the content step of the update flow
  and every turn in which a moderation check does not approve the message, the turn
  leaves the session as it was (but for the cut of the history): \<open>update_step\<close> is
  still the content step, \<open>update_content\<close> is unchanged, and the category
  suggestion is not invoked.
\<close>

theorem flagged_update_content:
  assumes up: "flag (updating_course s)" and st: "update_step s = Some content_input"
    and rej: "list_ex rejection (snd (handle_message w s upd))"
  shows "fst (handle_message w s upd) = get_user_state s \<and>
         update_step (fst (handle_message w s upd)) = Some content_input \<and>
         update_content (fst (handle_message w s upd)) = update_content s \<and>
         \<not> list_ex (invokes Category_suggestion) (snd (handle_message w s upd))"
proof -
  let ?g = "get_user_state s"
  let ?script = "if truthy (msg_text upd) then tl (llm w) else llm w"
  have g: "flag (updating_course ?g)" "update_step ?g = Some content_input"
    "get_user_state ?g = ?g"
    using up st by (simp_all add: get_user_state_idem)
  note inner = content_step [OF g, of w ?script upd]
  have menu: "\<not> (is_menu (uni w) (msg_text upd) \<and> can_return_to_menu ?g)"
    using rej by (auto simp: handle_message_def Let_def)
  have main: "fst (handle_message w s upd) = ?g \<and>
         \<not> list_ex (invokes Category_suggestion) (snd (handle_message w s upd))"
  proof (cases "truthy (msg_text upd)")
    case False
    with menu g(1) have eq: "handle_message w s upd = handle_update_flow w (llm w) ?g upd"
      by (auto simp: handle_message_def Let_def)
    from False have "?script = llm w" by simp
    with inner rej show ?thesis unfolding eq by simp
  next
    case t: True
    then have sc: "?script = tl (llm w)" by simp
    show ?thesis
    proof (cases "fst (detect_inappropriate_content (next_reply (llm w)))")
      case False
      with menu t have "handle_message w s upd =
          (?g, [Invoke Moderation (msg_text upd) (next_reply (llm w)),
                Reply (snd (detect_inappropriate_content (next_reply (llm w))))])"
        by (auto simp: handle_message_def Let_def)
      then show ?thesis by simp
    next
      case True
      with menu t g(1) have eq: "handle_message w s upd =
          (fst (handle_update_flow w (tl (llm w)) ?g upd),
           Invoke Moderation (msg_text upd) (next_reply (llm w)) #
             snd (handle_update_flow w (tl (llm w)) ?g upd))"
        by (auto simp: handle_message_def Let_def)
      from rej True have "list_ex rejection (snd (handle_update_flow w (tl (llm w)) ?g upd))"
        unfolding eq by simp
      with inner show ?thesis unfolding eq sc by simp
    qed
  qed
  then show ?thesis using st by simp
qed

lemmas turn_defs =
  handle_message_def handle_update_flow_def query_flow_def update_course_command_def
  create_initial_state_def get_user_state_def reset_state_def
  says_def world0_def uni0_def approved_def is_menu_def py_lower_def ascii_lower_def str_def
  detect_inappropriate_content_def identify_course_def suggest_category_def after_colon_def
  next_reply_def py_strip_def py_isspace_def truthy_def flag_def Let_def upt_rec

lemma stale_session_eq:
  "stale_session =
     create_initial_state\<lparr>language := Some (str ''es''), waiting_for_language := False,
       waiting_for_course := Some True, updating_course := Some True,
       update_step := Some content_input, update_course := Some (str ''Algoritmos''),
       update_content := Some (str ''examen''), update_category := Some (str ''EVALUACION'')\<rparr>"
  unfolding stale_session_def by (simp add: turn_defs)

lemma fresh_session_eq:
  "fresh_session =
     create_initial_state\<lparr>language := Some (str ''es''), waiting_for_language := False,
       waiting_for_course := Some True, updating_course := Some True,
       update_step := Some content_input, update_course := Some (str ''Algoritmos'')\<rparr>"
  unfolding fresh_session_def by (simp add: turn_defs)

theorem flagged_update_content_witness:
  "flag (updating_course fresh_session) \<and> update_step fresh_session = Some content_input \<and>
   list_ex rejection (snd (handle_message (world0 [Content (str ''INAPPROPRIATE: odio'')])
       fresh_session (says ''malo''))) \<and>
   fst (handle_message (world0 [Content (str ''INAPPROPRIATE: odio'')])
       fresh_session (says ''malo'')) = fresh_session \<and>
   update_content (fst (handle_message (world0 [Content (str ''INAPPROPRIATE: odio'')])
       fresh_session (says ''malo''))) = None \<and>
   \<not> list_ex (invokes Category_suggestion)
       (snd (handle_message (world0 [Content (str ''INAPPROPRIATE: odio'')])
          fresh_session (says ''malo'')))"
proof -
  let ?w = "world0 [Content (str ''INAPPROPRIATE: odio'')]"
  have up: "flag (updating_course fresh_session)"
    and st: "update_step fresh_session = Some content_input"
    and uc: "update_content fresh_session = None"
    and g: "get_user_state fresh_session = fresh_session"
    by (simp_all add: fresh_session_eq create_initial_state_def flag_def get_user_state_def)
  have ev: "snd (handle_message ?w fresh_session (says ''malo'')) =
      [Invoke Moderation (Some (str ''malo'')) (Content (str ''INAPPROPRIATE: odio'')),
       Reply (warning_message (str ''odio''))]"
    unfolding fresh_session_eq by (simp add: turn_defs)
  have rej: "list_ex rejection (snd (handle_message ?w fresh_session (says ''malo'')))"
    unfolding ev
    by (simp add: detect_inappropriate_content_def str_def py_strip_def py_isspace_def
        after_colon_def)
  from flagged_update_content [OF up st rej] up st rej uc g
  show ?thesis by simp
qed

theorem update_content_set_counterexample:
  "reachable stale_session \<and>
   flag (updating_course stale_session) \<and> update_step stale_session = Some content_input \<and>
   list_ex rejection (snd (handle_message (world0 [Content (str ''INAPPROPRIATE: odio'')])
       stale_session (says ''malo''))) \<and>
   update_content (fst (handle_message (world0 [Content (str ''INAPPROPRIATE: odio'')])
       stale_session (says ''malo''))) = Some (str ''examen'')"
proof -
  let ?w = "world0 [Content (str ''INAPPROPRIATE: odio'')]"
  have r: "reachable stale_session"
    unfolding stale_session_def by (rule run_reachable) (rule reachable.initial)
  have up: "flag (updating_course stale_session)"
    and st: "update_step stale_session = Some content_input"
    by (simp_all add: stale_session_eq create_initial_state_def flag_def)
  have hm: "handle_message ?w stale_session (says ''malo'') =
      (stale_session,
       [Invoke Moderation (Some (str ''malo'')) (Content (str ''INAPPROPRIATE: odio'')),
        Reply (warning_message (str ''odio''))])"
    unfolding stale_session_eq by (simp add: turn_defs)
  have rej: "list_ex rejection (snd (handle_message ?w stale_session (says ''malo'')))"
    unfolding hm
    by (simp add: detect_inappropriate_content_def str_def py_strip_def py_isspace_def
        after_colon_def)
  have "update_content (fst (handle_message ?w stale_session (says ''malo''))) = Some (str ''examen'')"
    unfolding hm by (simp add: stale_session_eq create_initial_state_def)
  with r up st rej show ?thesis by blast
qed

section \<open>The category of an update\<close>

lemma strip_nonempty: "py_strip m \<noteq> [] \<Longrightarrow> m \<noteq> []"
  by (auto simp: py_strip_def)

lemma affirmative_not_menu:
  "x \<in> set affirmative \<Longrightarrow> x \<notin> set [str ''menu'', str ''/menu'']"
  by (auto simp: affirmative_def str_def)

lemma suggestion_stored:
  assumes "flag (updating_course s)" "update_step s = Some content_input"
    "msg_text upd = Some m" "py_strip m \<noteq> []" "\<not> is_menu (uni w) (Some m)"
    "fst (detect_inappropriate_content (next_reply script))"
  shows "update_category (fst (handle_update_flow w script s upd))
           = Some (suggest_category (next_reply (tl script))) \<and>
         update_step (fst (handle_update_flow w script s upd)) = Some category_confirmation \<and>
         updating_course (fst (handle_update_flow w script s upd)) = updating_course s"
  using assms strip_nonempty [of m]
  by (simp add: handle_update_flow_def Let_def)

lemma confirmation_keeps:
  assumes "flag (updating_course s)" "update_step s = Some category_confirmation"
    "msg_text upd = Some m" "py_lower (uni w) m \<in> set affirmative"
  shows "update_category (fst (handle_update_flow w script s upd)) = update_category s \<and>
         update_step (fst (handle_update_flow w script s upd)) = Some ciclo_selection"
proof -
  have "\<not> is_menu (uni w) (Some m)"
    using affirmative_not_menu [OF assms(4)] by (simp add: is_menu_def)
  with assms show ?thesis
    by (simp add: handle_update_flow_def Let_def)
qed

lemma category_input_checked:
  assumes "flag (updating_course s)" "update_step s = Some category_input"
    "msg_text upd = Some m" "\<not> is_menu (uni w) (Some m)"
  shows "if py_upper (uni w) m \<in> set categories
         then update_category (fst (handle_update_flow w script s upd)) = Some (py_upper (uni w) m) \<and>
              update_step (fst (handle_update_flow w script s upd)) = Some ciclo_selection
         else fst (handle_update_flow w script s upd) = get_user_state s"
  using assms by (simp add: handle_update_flow_def Let_def)

text \<open>
  C9. In the update flow, when the moderation check approves the content, the category
  that the suggestion capability returns (the stripped response, whatever it is)
  becomes \<open>update_category\<close>; an affirmative reply in the confirmation step, in any
  letter case, keeps it as it is and moves on to the cycle, with no test against the
  closed set of categories. In the category-input step the category changes only to an
  upper-cased input that is in the closed set; any other input leaves the session as
  it was.
\<close>

theorem suggestion_taken_verbatim:
  "(flag (updating_course s) \<and> update_step s = Some content_input \<and>
    msg_text upd = Some m \<and> py_strip m \<noteq> [] \<and> \<not> is_menu (uni w) (Some m) \<and>
    fst (detect_inappropriate_content (next_reply script)) \<and>
    msg_text upd' = Some m' \<and> py_lower (uni w') m' \<in> set affirmative \<longrightarrow>
      update_category (fst (handle_update_flow w script s upd))
        = Some (suggest_category (next_reply (tl script))) \<and>
      update_step (fst (handle_update_flow w script s upd)) = Some category_confirmation \<and>
      update_category (fst (handle_update_flow w' script'
          (fst (handle_update_flow w script s upd)) upd'))
        = Some (suggest_category (next_reply (tl script))) \<and>
      update_step (fst (handle_update_flow w' script'
          (fst (handle_update_flow w script s upd)) upd')) = Some ciclo_selection) \<and>
   suggest_category (Content c) = py_strip c \<and>
   (flag (updating_course s) \<and> update_step s = Some category_input \<and>
    msg_text upd = Some m \<and> \<not> is_menu (uni w) (Some m) \<longrightarrow>
      (if py_upper (uni w) m \<in> set categories
       then update_category (fst (handle_update_flow w script s upd)) = Some (py_upper (uni w) m) \<and>
            update_step (fst (handle_update_flow w script s upd)) = Some ciclo_selection
       else fst (handle_update_flow w script s upd) = get_user_state s))"
proof (intro conjI impI)
  assume a: "flag (updating_course s) \<and> update_step s = Some content_input \<and>
    msg_text upd = Some m \<and> py_strip m \<noteq> [] \<and> \<not> is_menu (uni w) (Some m) \<and>
    fst (detect_inappropriate_content (next_reply script)) \<and>
    msg_text upd' = Some m' \<and> py_lower (uni w') m' \<in> set affirmative"
  let ?s1 = "fst (handle_update_flow w script s upd)"
  from a have h: "flag (updating_course s)" "update_step s = Some content_input"
    "msg_text upd = Some m" "py_strip m \<noteq> []" "\<not> is_menu (uni w) (Some m)"
    "fst (detect_inappropriate_content (next_reply script))"
    and h': "msg_text upd' = Some m'" "py_lower (uni w') m' \<in> set affirmative"
    by simp_all
  note 1 = suggestion_stored [OF h]
  then show "update_category ?s1 = Some (suggest_category (next_reply (tl script)))"
    and "update_step ?s1 = Some category_confirmation"
    by simp_all
  from 1 h(1) have up: "flag (updating_course ?s1)" "update_step ?s1 = Some category_confirmation"
    by simp_all
  note 2 = confirmation_keeps [OF up h', of script']
  with 1 show "update_category (fst (handle_update_flow w' script' ?s1 upd'))
      = Some (suggest_category (next_reply (tl script)))"
    and "update_step (fst (handle_update_flow w' script' ?s1 upd')) = Some ciclo_selection"
    by simp_all
next
  show "suggest_category (Content c) = py_strip c"
    by (simp add: suggest_category_def)
next
  assume "flag (updating_course s) \<and> update_step s = Some category_input \<and>
    msg_text upd = Some m \<and> \<not> is_menu (uni w) (Some m)"
  then show "if py_upper (uni w) m \<in> set categories
       then update_category (fst (handle_update_flow w script s upd)) = Some (py_upper (uni w) m) \<and>
            update_step (fst (handle_update_flow w script s upd)) = Some ciclo_selection
       else fst (handle_update_flow w script s upd) = get_user_state s"
    using category_input_checked [of s upd m w script] by blast
qed

theorem suggestion_taken_verbatim_witness:
  "flag (updating_course fresh_session) \<and> update_step fresh_session = Some content_input \<and>
   py_strip (str ''tarea del lunes'') \<noteq> [] \<and>
   \<not> is_menu (uni (world0 [])) (Some (str ''tarea del lunes'')) \<and>
   fst (detect_inappropriate_content (next_reply [approved, Content (str '' Recordatorio '')])) \<and>
   py_lower (uni (world0 [])) (str ''SI'') \<in> set affirmative \<and>
   update_category (fst (handle_update_flow (world0 []) []
       (fst (handle_update_flow (world0 []) [approved, Content (str '' Recordatorio '')]
          fresh_session (says ''tarea del lunes''))) (says ''SI'')))
     = Some (str ''Recordatorio'') \<and>
   str ''Recordatorio'' \<notin> set categories \<and>
   update_step (fresh_session\<lparr>update_step := Some category_input\<rparr>) = Some category_input \<and>
   py_upper (uni (world0 [])) (str ''Recordatorio'') \<notin> set categories \<and>
   fst (handle_update_flow (world0 []) [] (fresh_session\<lparr>update_step := Some category_input\<rparr>)
       (says ''Recordatorio''))
     = get_user_state (fresh_session\<lparr>update_step := Some category_input\<rparr>)"
proof -
  let ?w = "world0 []"
  let ?script = "[approved, Content (str '' Recordatorio '')]"
  let ?s3 = "fresh_session\<lparr>update_step := Some category_input\<rparr>"
  have up: "flag (updating_course fresh_session)"
    and st: "update_step fresh_session = Some content_input"
    and up3: "flag (updating_course ?s3)" and st3: "update_step ?s3 = Some category_input"
    by (simp_all add: fresh_session_eq create_initial_state_def flag_def)
  have m: "msg_text (says ''tarea del lunes'') = Some (str ''tarea del lunes'')"
    "msg_text (says ''SI'') = Some (str ''SI'')"
    "msg_text (says ''Recordatorio'') = Some (str ''Recordatorio'')"
    by (simp_all add: says_def)
  have ne: "py_strip (str ''tarea del lunes'') \<noteq> []"
    by (simp add: py_strip_def str_def py_isspace_def)
  have nm: "\<not> is_menu (uni ?w) (Some (str ''tarea del lunes''))"
    "\<not> is_menu (uni ?w) (Some (str ''Recordatorio''))"
    by (simp_all add: is_menu_def py_lower_def ascii_lower_def str_def world0_def uni0_def upt_rec)
  have ok: "fst (detect_inappropriate_content (next_reply ?script))"
    by (simp add: next_reply_def approved_def detect_inappropriate_content_def str_def
        py_strip_def py_isspace_def)
  have yes: "py_lower (uni ?w) (str ''SI'') \<in> set affirmative"
    by (simp add: affirmative_def py_lower_def ascii_lower_def str_def world0_def uni0_def upt_rec)
  have sug: "suggest_category (next_reply (tl ?script)) = str ''Recordatorio''"
    by (simp add: next_reply_def suggest_category_def str_def py_strip_def py_isspace_def)
  have no: "str ''Recordatorio'' \<notin> set categories"
    "py_upper (uni ?w) (str ''Recordatorio'') \<notin> set categories"
    by (simp_all add: categories_def py_upper_def ascii_upper_def str_def world0_def uni0_def upt_rec)
  note t = suggestion_taken_verbatim [of fresh_session "says ''tarea del lunes''"
      "str ''tarea del lunes''" ?w ?script "says ''SI''" "str ''SI''" ?w "[]"]
  note t3 = suggestion_taken_verbatim [of ?s3 "says ''Recordatorio''" "str ''Recordatorio''" ?w "[]"]
  from t up st m ne nm ok yes sug
  have a: "update_category (fst (handle_update_flow ?w []
       (fst (handle_update_flow ?w ?script fresh_session (says ''tarea del lunes''))) (says ''SI'')))
     = Some (str ''Recordatorio'')"
    by simp
  from t3 up3 st3 m nm no
  have b: "fst (handle_update_flow ?w [] ?s3 (says ''Recordatorio'')) = get_user_state ?s3"
    by simp
  from a b up st ne nm ok yes no st3 show ?thesis by blast
qed

section \<open>A query for a course without a record\<close>
















end
